theory Spec2Isabelle
  imports Complex_Main
begin

section \<open>Chunked upload page: data model\<close>

text \<open>
  A shallow embedding of \<^verbatim>\<open>src/app/page.tsx\<close>. The React component state, the
  cancellation ref and the log of requests sent to the outside world form one record
  that every operation takes and returns. What the outside world answers (the replies of
  \<^verbatim>\<open>fetch\<close>, and the moments at which the user presses Cancel) is an explicit
  argument of each operation.
\<close>

definition CHUNK_SIZE :: nat where
  "CHUNK_SIZE = 5 * 1024 * 1024"

definition MAX_RETRIES :: nat where
  "MAX_RETRIES = 2"

text \<open>A \<^verbatim>\<open>Blob\<close> is its byte sequence; a \<^verbatim>\<open>File\<close> adds a name and a media type.\<close>

type_synonym blob = "char list"

record File =
  file_name :: string
  file_type :: string
  file_bytes :: blob

record PresignedPutPart =
  part_number :: int
  url :: string

record StartUploadResponse =
  parts :: "PresignedPutPart list"
  video :: string

record UploadStatus =
  us_status :: string
  us_video :: string

record CompletePart =
  ETag :: string
  PartNumber :: int

section \<open>Chunker\<close>

text \<open>
  \<^verbatim>\<open>Blob.slice(start, end)\<close> for non-negative arguments: both ends are clamped to the
  size, and an end before the start gives the empty blob.
\<close>

definition slice :: "blob \<Rightarrow> nat \<Rightarrow> nat \<Rightarrow> blob" where
  "slice b start end = take (end - start) (drop start b)"

text \<open>
  The \<^verbatim>\<open>while (start < file.size)\<close> loop of \<^verbatim>\<open>chunkFile\<close>, with the chunk size as a
  parameter \<open>C\<close>. With \<open>C = 0\<close> the loop never advances, so the loop is a partial
  function: \<open>None\<close> stands for a loop that does not return.
\<close>

partial_function (option) chunkFile_loop :: "nat \<Rightarrow> blob \<Rightarrow> nat \<Rightarrow> blob list \<Rightarrow> blob list option" where
  "chunkFile_loop C b start chunks =
     (if start < length b then
        (let end = min (start + C) (length b)
         in chunkFile_loop C b end (chunks @ [slice b start end]))
      else Some chunks)"

definition chunkFile :: "File \<Rightarrow> blob list option" where
  "chunkFile f = chunkFile_loop CHUNK_SIZE (file_bytes f) 0 []"

text \<open>The byte range of chunk \<open>i\<close> (0-based) as the specification words it.\<close>

definition chunk_at :: "nat \<Rightarrow> blob \<Rightarrow> nat \<Rightarrow> blob" where
  "chunk_at C b i = slice b (i * C) (min ((i + 1) * C) (length b))"

definition chunk_count :: "nat \<Rightarrow> nat \<Rightarrow> nat" where
  "chunk_count C n = (n + C - 1) div C"

section \<open>Errors and their messages\<close>

text \<open>
  Every value the page throws or catches. \<open>PlatformError\<close> is an error raised by the
  platform (a rejected \<^verbatim>\<open>fetch\<close>, \<^verbatim>\<open>response.text()\<close> or \<^verbatim>\<open>response.json()\<close>)
  with its message; the others are the \<^verbatim>\<open>new Error(...)\<close> of the source, holding the
  values their message templates interpolate. \<open>UndefinedPart\<close> is the \<^verbatim>\<open>TypeError\<close> of
  reading \<^verbatim>\<open>part.part_number\<close> when \<^verbatim>\<open>startResponse.parts[i]\<close> is \<^verbatim>\<open>undefined\<close>.
\<close>

datatype js_error =
    PlatformError string
  | ChunkUploadError int nat string string
  | ETagError int nat string
  | StartError string string
  | CancelError string string
  | CompleteError string string
  | StatusError string
  | UndefinedPart

definition digit :: "nat \<Rightarrow> char" where
  "digit d = ''0123456789'' ! (d mod 10)"

function decimal :: "nat \<Rightarrow> string" where
  "decimal n = (if n < 10 then [digit n] else decimal (n div 10) @ [digit (n mod 10)])"
  by pat_completeness auto
termination
  by (relation "measure id") auto

declare decimal.simps [simp del]

text \<open>
  \<^verbatim>\<open>${n}\<close> in a template literal is \<^verbatim>\<open>Number::toString\<close>. A Number that holds an integer is
  modelled by that integer. Below \<open>2\<^sup>5\<^sup>3\<close> every integer is a Number and prints as its own
  decimal digits. From there on a Number is \<open>m * 2\<^sup>s\<close> with \<open>m\<close> of 53 bits; an integer
  numeral is read as the nearest one (ties to the even \<open>m\<close>, \<^verbatim>\<open>Infinity\<close> from
  \<open>2\<^sup>1\<^sup>0\<^sup>2\<^sup>4\<close> on), and it prints as the shortest decimal that reads back as the same
  Number, the nearest to it among those: in full below \<open>10\<^sup>2\<^sup>1\<close> and in exponent
  notation from there on.
\<close>

function bit_length :: "nat \<Rightarrow> nat" where
  "bit_length n = (if n = 0 then 0 else Suc (bit_length (n div 2)))"
  by pat_completeness auto
termination
  by (relation "measure id") auto

declare bit_length.simps [simp del]

text \<open>The distance from a Number \<open>x \<ge> 2\<^sup>5\<^sup>2\<close> to the next one.\<close>

definition ulp :: "nat \<Rightarrow> nat" where
  "ulp x = 2 ^ (bit_length x - 53)"

definition nearest_number :: "nat \<Rightarrow> nat" where
  "nearest_number x =
     (let q = x div ulp x; r = x mod ulp x
      in (if 2 * r < ulp x \<or> (2 * r = ulp x \<and> even q) then q else q + 1) * ulp x)"

text \<open>
  Whether the integer \<open>c\<close> is read as the Number \<open>x\<close>: it lies within half the distance to
  the neighbour of \<open>x\<close> on its side, the half-way point included when \<open>m\<close> is even. Below a
  power of two the neighbour is at half the distance.
\<close>

definition reads_as :: "nat \<Rightarrow> nat \<Rightarrow> bool" where
  "reads_as x c =
     (let inclusive = even (x div ulp x);
          below = (if x = 2 ^ (bit_length x - 1) then ulp x div 2 else ulp x)
      in if c \<le> x then (if inclusive then 2 * x \<le> 2 * c + below else 2 * x < 2 * c + below)
         else (if inclusive then 2 * c \<le> 2 * x + ulp x else 2 * c < 2 * x + ulp x))"

text \<open>
  The value of the shortest decimal that is read as \<open>x\<close>, looked for among the multiples
  of \<open>10\<^sup>e\<close> next to \<open>x\<close>, from the given \<open>e\<close> downwards.
\<close>

primrec shortest :: "nat \<Rightarrow> nat \<Rightarrow> nat" where
  "shortest x 0 = x"
| "shortest x (Suc e) =
     (let p = 10 ^ Suc e; down = x div p * p; up = down + p
      in if reads_as x down \<and> reads_as x up then
           (if x - down < up - x \<or> (x - down = up - x \<and> even (x div p)) then down else up)
         else if reads_as x down then down
         else if reads_as x up then up
         else shortest x e)"

definition exponential :: "nat \<Rightarrow> string" where
  "exponential v =
     (let ds = decimal v; s = rev (dropWhile (\<lambda>c. c = CHR ''0'') (rev ds))
      in hd s # (if tl s = [] then [] else ''.'' @ tl s) @ ''e+'' @ decimal (length ds - 1))"

definition Number_toString_nat :: "nat \<Rightarrow> string" where
  "Number_toString_nat n =
     (if n < 2 ^ 53 then decimal n
      else let x = nearest_number n
           in if 2 ^ 1024 \<le> x then ''Infinity''
              else let v = shortest x (length (decimal x) - 1)
                   in if v < 10 ^ 21 then decimal v else exponential v)"

definition Number_toString :: "int \<Rightarrow> string" where
  "Number_toString i =
     (if i < 0 then ''-'' @ Number_toString_nat (nat (- i)) else Number_toString_nat (nat i))"

text \<open>
  \<^verbatim>\<open>err.message\<close>, following the template literals of the source. The text of the
  \<^verbatim>\<open>TypeError\<close> is the engine's (here V8's); no property below depends on it.
\<close>

fun message :: "js_error \<Rightarrow> string" where
  "message (PlatformError m) = m"
| "message (ChunkUploadError pn st stText responseText) =
     ''Failed to upload chunk '' @ Number_toString pn @ '': '' @ Number_toString (int st)
       @ '' '' @ stText
       @ (if responseText \<noteq> [] then '' - '' @ responseText else [])"
| "message (ETagError pn st hdrs) =
     ''Failed to extract ETag from chunk '' @ Number_toString pn @ '' response. Status: ''
       @ Number_toString (int st) @ ''. Headers: '' @ hdrs"
| "message (StartError stText errorText) = ''Failed to start upload: '' @ stText @ '' - '' @ errorText"
| "message (CancelError stText errorText) = ''Failed to cancel upload: '' @ stText @ '' - '' @ errorText"
| "message (CompleteError stText errorText) = ''Failed to complete upload: '' @ stText @ '' - '' @ errorText"
| "message (StatusError stText) = ''Failed to check status: '' @ stText"
| "message UndefinedPart =
     ''Cannot read properties of undefined (reading '' @ [CHR 0x27] @ ''part_number''
       @ [CHR 0x27] @ '')''"

text \<open>The part number an error carries, for the errors whose message interpolates one.\<close>

fun error_part :: "js_error \<Rightarrow> int option" where
  "error_part (ChunkUploadError pn st stText responseText) = Some pn"
| "error_part (ETagError pn st hdrs) = Some pn"
| "error_part e = None"

section \<open>The outside world\<close>

text \<open>
  A \<^verbatim>\<open>Response\<close>: the members the page reads. \<open>body_text\<close> and \<open>body_json\<close> are what
  \<^verbatim>\<open>await response.text()\<close> and \<^verbatim>\<open>await response.json()\<close> give (\<open>Inl\<close> when they
  reject); \<open>headers_get\<close> is \<^verbatim>\<open>response.headers.get\<close> (\<open>None\<close> for \<^verbatim>\<open>null\<close>);
  \<open>headers_json\<close> is the text of
  \<^verbatim>\<open>JSON.stringify(Object.fromEntries(response.headers.entries()))\<close>.
  An awaited \<^verbatim>\<open>fetch\<close> gives \<open>Inl\<close> of its error or \<open>Inr\<close> of the response.
\<close>

record 'j response =
  ok :: bool
  status_code :: nat
  statusText :: string
  body_text :: "js_error + string"
  body_json :: "js_error + 'j"
  headers_get :: "string \<Rightarrow> string option"
  headers_json :: string

type_synonym 'j fetched = "js_error + 'j response"

text \<open>
  Whether the user presses the Cancel button while the page waits at a suspension point:
  \<open>None\<close> when not, \<open>Some reply\<close> when pressed, \<open>reply\<close> being the backend's answer
  to the cancel request that the press sends.
\<close>

type_synonym click = "unit fetched option"

text \<open>Requests and timers the page issues, in the order it issues them.\<close>

datatype event =
    StartCall string string nat "string option"
  | PutCall string blob
  | CancelCall string
  | CompleteCall string "CompletePart list"
  | StatusCall string
  | SetTimeout nat

text \<open>
  The component: the \<^verbatim>\<open>useState\<close> values, \<^verbatim>\<open>cancelledRef.current\<close>, and the log of
  events. \<open>progress\<close> is a JavaScript number, taken here as a real.
\<close>

record page =
  file' :: "File option"
  uploading :: bool
  progress :: real
  status :: string
  error :: string
  videoUid :: "string option"
  cancelled :: bool
  cancelledRef :: bool
  trace :: "event list"

datatype 'a promise = Fulfilled 'a | Rejected js_error | Pending

section \<open>Cancel\<close>

definition cancelUpload :: "unit fetched \<Rightarrow> string \<Rightarrow> page \<Rightarrow> (js_error + unit) \<times> page" where
  "cancelUpload reply uid w =
     (let w1 = w\<lparr>trace := trace w @ [CancelCall uid]\<rparr>;
          attempt =
            (case reply of
               Inl e \<Rightarrow> Inl e
             | Inr response \<Rightarrow>
                 if \<not> ok response then
                   (case body_text response of
                      Inl e \<Rightarrow> Inl e
                    | Inr errorText \<Rightarrow> Inl (CancelError (statusText response) errorText))
                 else Inr ())
      in case attempt of
           Inl e \<Rightarrow> (Inr (), w1)
         | Inr u \<Rightarrow> (Inr (), w1))"

definition handleCancel :: "unit fetched \<Rightarrow> page \<Rightarrow> page" where
  "handleCancel reply w =
     (case videoUid w of
        None \<Rightarrow> w
      | Some uid \<Rightarrow>
          if uid = [] \<or> \<not> uploading w then w
          else snd (cancelUpload reply uid
                 (w\<lparr>cancelled := True, cancelledRef := True, status := ''Cancelling upload...''\<rparr>)))"

definition press :: "click \<Rightarrow> page \<Rightarrow> page" where
  "press c w = (case c of None \<Rightarrow> w | Some reply \<Rightarrow> handleCancel reply w)"

section \<open>Part uploader\<close>

text \<open>\<^verbatim>\<open>a || b\<close> for a header value \<open>a\<close> (a string or \<^verbatim>\<open>null\<close>) and a string \<open>b\<close>.\<close>

definition js_or :: "string option \<Rightarrow> string \<Rightarrow> string" where
  "js_or a b = (case a of None \<Rightarrow> b | Some s \<Rightarrow> if s = [] then b else s)"

definition is_quote :: "char \<Rightarrow> bool" where
  "is_quote c = (c = CHR 0x22 \<or> c = CHR 0x27)"

text \<open>
  \<^verbatim>\<open>etag.replace(/^["']|["']$/g, '')\<close>: a quote at index 0 is removed, and a quote at
  the last index is removed when that index is not 0.
\<close>

definition strip_quotes :: "string \<Rightarrow> string" where
  "strip_quotes s =
     (case s of
        [] \<Rightarrow> []
      | c # cs \<Rightarrow> (if is_quote c then [] else [c])
                   @ (if cs \<noteq> [] \<and> is_quote (last cs) then butlast cs else cs))"

text \<open>
  \<^verbatim>\<open>String.prototype.trim\<close> on a header value, whose code units are bytes: the white
  space and line terminators below \<open>0x100\<close>.
\<close>

definition is_space :: "char \<Rightarrow> bool" where
  "is_space c = (c \<in> set [CHR 0x09, CHR 0x0A, CHR 0x0B, CHR 0x0C, CHR 0x0D, CHR 0x20, CHR 0xA0])"

definition trim :: "string \<Rightarrow> string" where
  "trim s = rev (dropWhile is_space (rev (dropWhile is_space s)))"

definition extract_etag :: "unit response \<Rightarrow> string" where
  "extract_etag response =
     trim (strip_quotes
       (js_or (headers_get response ''ETag'')
         (js_or (headers_get response ''etag'')
           (js_or (headers_get response ''Etag'') []))))"

text \<open>One pass through the \<^verbatim>\<open>try\<close> block of \<^verbatim>\<open>uploadChunkToS3\<close>, given the reply of its \<^verbatim>\<open>fetch\<close>.\<close>

definition put_attempt :: "PresignedPutPart \<Rightarrow> unit fetched \<Rightarrow> js_error + string" where
  "put_attempt part reply =
     (case reply of
        Inl e \<Rightarrow> Inl e
      | Inr response \<Rightarrow>
          if \<not> ok response then
            (case body_text response of
               Inl e \<Rightarrow> Inl e
             | Inr responseText \<Rightarrow>
                 Inl (ChunkUploadError (part_number part) (status_code response)
                        (statusText response) responseText))
          else
            (let etag = extract_etag response
             in if etag = [] then
                  Inl (ETagError (part_number part) (status_code response) (headers_json response))
                else Inr etag))"

text \<open>
  What happens while one \<^verbatim>\<open>PUT\<close> is in flight: whether Cancel is pressed, and the reply.
  The argument \<open>io\<close> of \<open>uploadChunkToS3\<close> gives this for each \<open>retryCount\<close>.
\<close>

record put_event =
  click_put :: click
  put_reply :: "unit fetched"

function uploadChunkToS3 ::
  "(nat \<Rightarrow> put_event) \<Rightarrow> blob \<Rightarrow> PresignedPutPart \<Rightarrow> nat \<Rightarrow> page \<Rightarrow> (js_error + string) \<times> page" where
  "uploadChunkToS3 io chunk part retryCount w =
     (let w1 = press (click_put (io retryCount)) (w\<lparr>trace := trace w @ [PutCall (url part) chunk]\<rparr>)
      in case put_attempt part (put_reply (io retryCount)) of
           Inr etag \<Rightarrow> (Inr etag, w1)
         | Inl e \<Rightarrow>
             if retryCount < MAX_RETRIES then uploadChunkToS3 io chunk part (retryCount + 1) w1
             else (Inl e, w1))"
  by pat_completeness auto
termination
  by (relation "measure (\<lambda>(io, chunk, part, retryCount, w). MAX_RETRIES - retryCount)") auto

declare uploadChunkToS3.simps [simp del]

section \<open>Backend calls\<close>

text \<open>
  Each backend call logs its request, lets a Cancel press happen while the request is in
  flight, and reads the reply; how the reply is read does not depend on the page.
\<close>

definition start_result :: "StartUploadResponse fetched \<Rightarrow> js_error + StartUploadResponse" where
  "start_result reply =
     (case reply of
        Inl e \<Rightarrow> Inl e
      | Inr response \<Rightarrow>
          if \<not> ok response then
            (case body_text response of
               Inl e \<Rightarrow> Inl e
             | Inr errorText \<Rightarrow> Inl (StartError (statusText response) errorText))
          else body_json response)"

definition startUpload ::
  "string \<Rightarrow> StartUploadResponse fetched \<Rightarrow> click \<Rightarrow> string \<Rightarrow> nat \<Rightarrow> string \<Rightarrow> page
     \<Rightarrow> (js_error + StartUploadResponse) \<times> page" where
  "startUpload upload_id reply c fileName totalParts contentType w =
     (start_result reply,
      press c (w\<lparr>trace := trace w @
        [StartCall upload_id fileName totalParts
           (if contentType \<noteq> [] then Some contentType else None)]\<rparr>))"

definition complete_result :: "unit fetched \<Rightarrow> js_error + unit" where
  "complete_result reply =
     (case reply of
        Inl e \<Rightarrow> Inl e
      | Inr response \<Rightarrow>
          if \<not> ok response then
            (case body_text response of
               Inl e \<Rightarrow> Inl e
             | Inr errorText \<Rightarrow> Inl (CompleteError (statusText response) errorText))
          else Inr ())"

definition completeUpload ::
  "unit fetched \<Rightarrow> click \<Rightarrow> string \<Rightarrow> CompletePart list \<Rightarrow> page \<Rightarrow> (js_error + unit) \<times> page" where
  "completeUpload reply c uid ps w =
     (complete_result reply, press c (w\<lparr>trace := trace w @ [CompleteCall uid ps]\<rparr>))"

definition status_result :: "UploadStatus fetched \<Rightarrow> js_error + UploadStatus" where
  "status_result reply =
     (case reply of
        Inl e \<Rightarrow> Inl e
      | Inr response \<Rightarrow>
          if \<not> ok response then Inl (StatusError (statusText response))
          else body_json response)"

definition checkStatus ::
  "UploadStatus fetched \<Rightarrow> click \<Rightarrow> string \<Rightarrow> page \<Rightarrow> (js_error + UploadStatus) \<times> page" where
  "checkStatus reply c uid w =
     (status_result reply, press c (w\<lparr>trace := trace w @ [StatusCall uid]\<rparr>))"

section \<open>Status poller\<close>

text \<open>
  One round of polling: the reply to the status request, whether Cancel is pressed while
  the request is in flight, and whether it is pressed during the 5 s wait that follows.
  The poller has no bound of its own, so it runs against a finite script of rounds;
  when the script ends with the poller still scheduled, its promise is \<open>Pending\<close>.
\<close>

record poll_event =
  poll_reply :: "UploadStatus fetched"
  click_poll :: click
  click_wait :: click

fun poll :: "string \<Rightarrow> poll_event list \<Rightarrow> page \<Rightarrow> unit promise \<times> page" where
  "poll uid rounds w =
     (if cancelledRef w then (Fulfilled (), w)
      else case rounds of
        [] \<Rightarrow> (Pending, w)
      | r # rest \<Rightarrow>
          (case checkStatus (poll_reply r) (click_poll r) uid w of
             (Inr statusData, w1) \<Rightarrow>
               (let w2 = w1\<lparr>status := ''Status: '' @ us_status statusData\<rparr>
                in if us_status statusData = ''completed'' then (Fulfilled (), w2\<lparr>progress := 100\<rparr>)
                   else if cancelledRef w2 then (Fulfilled (), w2)
                   else poll uid rest (press (click_wait r) (w2\<lparr>trace := trace w2 @ [SetTimeout 5000]\<rparr>)))
           | (Inl e, w1) \<Rightarrow>
               if cancelledRef w1 then (Fulfilled (), w1) else (Rejected e, w1)))"

declare poll.simps [simp del]

definition pollStatus :: "click \<Rightarrow> poll_event list \<Rightarrow> string \<Rightarrow> page \<Rightarrow> unit promise \<times> page" where
  "pollStatus c rounds uid w =
     poll uid rounds (press c (w\<lparr>trace := trace w @ [SetTimeout 3000]\<rparr>))"

section \<open>Upload coordinator\<close>

text \<open>Everything the outside world contributes to one run of \<^verbatim>\<open>handleUpload\<close>.\<close>

record upload_io =
  uploadId :: string
  start_reply :: "StartUploadResponse fetched"
  click_start :: click
  put_io :: "nat \<Rightarrow> nat \<Rightarrow> put_event"
  complete_reply :: "unit fetched"
  click_complete :: click
  click_timer :: click
  poll_io :: "poll_event list"

text \<open>\<^verbatim>\<open>startResponse.parts[i]\<close>: \<open>None\<close> is \<^verbatim>\<open>undefined\<close>.\<close>

definition nth_opt :: "'a list \<Rightarrow> nat \<Rightarrow> 'a option" where
  "nth_opt xs i = (if i < length xs then Some (xs ! i) else None)"

text \<open>
  The \<^verbatim>\<open>for\<close> loop of step 3, from index \<open>i\<close> with the parts collected so far. With
  \<^verbatim>\<open>part\<close> undefined, \<^verbatim>\<open>uploadChunkToS3\<close> throws when it first reads
  \<^verbatim>\<open>part.part_number\<close>, and again in its \<^verbatim>\<open>catch\<close> block, before any request.
\<close>

function upload_loop ::
  "(nat \<Rightarrow> nat \<Rightarrow> put_event) \<Rightarrow> blob list \<Rightarrow> PresignedPutPart list \<Rightarrow> nat \<Rightarrow> nat
     \<Rightarrow> CompletePart list \<Rightarrow> page \<Rightarrow> (js_error + CompletePart list) \<times> page" where
  "upload_loop io chunks ps totalParts i completeParts w =
     (if i < length chunks then
        if cancelledRef w then
          (Inr completeParts, w\<lparr>status := ''Upload cancelled. Finishing current chunk uploads...''\<rparr>)
        else
          (let w1 = w\<lparr>status := ''Uploading chunk '' @ decimal (i + 1) @ ''/'' @ decimal totalParts @ ''...''\<rparr>
           in case nth_opt ps i of
                None \<Rightarrow> (Inl UndefinedPart, w1)
              | Some part \<Rightarrow>
                  (case uploadChunkToS3 (io i) (chunks ! i) part 0 w1 of
                     (Inl e, w2) \<Rightarrow> (Inl e, w2)
                   | (Inr etag, w2) \<Rightarrow>
                       upload_loop io chunks ps totalParts (i + 1)
                         (completeParts @ [\<lparr>ETag = etag, PartNumber = part_number part\<rparr>])
                         (w2\<lparr>progress := 10 + (real i + 1) * (80 / real totalParts)\<rparr>)))
      else (Inr completeParts, w))"
  by pat_completeness auto
termination
  by (relation "measure (\<lambda>(io, chunks, ps, totalParts, i, completeParts, w). length chunks - i)") auto

declare upload_loop.simps [simp del]

text \<open>The \<^verbatim>\<open>try\<close> block of \<^verbatim>\<open>handleUpload\<close>.\<close>

definition handleUpload_try :: "upload_io \<Rightarrow> File \<Rightarrow> page \<Rightarrow> unit promise \<times> page" where
  "handleUpload_try io f w =
     (case chunkFile f of
        None \<Rightarrow> (Pending, w)
      | Some chunks \<Rightarrow>
          (let totalParts = length chunks;
               w1 = w\<lparr>status := ''Chunking file into '' @ decimal totalParts @ '' parts...'', progress := 5\<rparr>
           in case startUpload (uploadId io) (start_reply io) (click_start io)
                     (file_name f) totalParts (file_type f) w1 of
                (Inl e, w2) \<Rightarrow> (Rejected e, w2)
              | (Inr startResponse, w2) \<Rightarrow>
                  (let w3 = w2\<lparr>videoUid := Some (video startResponse),
                               status := ''Received '' @ decimal (length (parts startResponse)) @ '' presigned URLs'',
                               progress := 10\<rparr>
                   in if cancelledRef w3 then (Fulfilled (), w3)
                      else
                        (case upload_loop (put_io io) chunks (parts startResponse) totalParts 0 [] w3 of
                           (Inl e, w4) \<Rightarrow> (Rejected e, w4)
                         | (Inr completeParts, w4) \<Rightarrow>
                             if cancelledRef w4 then (Fulfilled (), w4\<lparr>status := ''Upload cancelled''\<rparr>)
                             else
                               (let sortedParts = sort_key PartNumber completeParts;
                                    w5 = w4\<lparr>status := ''Completing upload...'', progress := 90\<rparr>
                                in case completeUpload (complete_reply io) (click_complete io)
                                          (video startResponse) sortedParts w5 of
                                     (Inl e, w6) \<Rightarrow> (Rejected e, w6)
                                   | (Inr u, w6) \<Rightarrow>
                                       (let w7 = w6\<lparr>progress := 99, status := ''Waiting for processing...''\<rparr>
                                        in case pollStatus (click_timer io) (poll_io io) (video startResponse) w7 of
                                             (Rejected e, w8) \<Rightarrow> (Rejected e, w8)
                                           | (Pending, w8) \<Rightarrow> (Pending, w8)
                                           | (Fulfilled u, w8) \<Rightarrow>
                                               if \<not> cancelledRef w8 then
                                                 (Fulfilled (), w8\<lparr>status := ''Upload completed successfully!''\<rparr>)
                                               else (Fulfilled (), w8)))))))"

text \<open>
  \<^verbatim>\<open>handleUpload\<close>: the guard, the resets, the \<^verbatim>\<open>try\<close> block, its \<^verbatim>\<open>catch\<close> and its
  \<^verbatim>\<open>finally\<close>. While the promise of the \<^verbatim>\<open>try\<close> block is pending, neither has run.
\<close>

definition handleUpload :: "upload_io \<Rightarrow> page \<Rightarrow> page" where
  "handleUpload io w =
     (case file' w of
        None \<Rightarrow> w\<lparr>error := ''Please select a file''\<rparr>
      | Some f \<Rightarrow>
          (let w0 = w\<lparr>uploading := True, error := [], status := ''Preparing upload...'',
                       progress := 0, cancelled := False, cancelledRef := False, videoUid := None\<rparr>
           in case handleUpload_try io f w0 of
                (Pending, w1) \<Rightarrow> w1
              | (Fulfilled u, w1) \<Rightarrow> w1\<lparr>uploading := False\<rparr>
              | (Rejected err, w1) \<Rightarrow>
                  (if \<not> cancelledRef w1 then w1\<lparr>error := message err, status := ''Upload failed''\<rparr>
                   else w1)\<lparr>uploading := False\<rparr>))"

section \<open>Notions used to state the properties\<close>

text \<open>
  The \<open>retryCount\<close> at which \<open>uploadChunkToS3\<close>, entered at \<open>retryCount = r\<close>, stops:
  the first attempt from \<open>r\<close> on that succeeds, or the first one at or past
  \<open>MAX_RETRIES\<close>.
\<close>

function final_attempt :: "PresignedPutPart \<Rightarrow> (nat \<Rightarrow> put_event) \<Rightarrow> nat \<Rightarrow> nat" where
  "final_attempt part io r =
     (if isl (put_attempt part (put_reply (io r))) \<and> r < MAX_RETRIES
      then final_attempt part io (r + 1) else r)"
  by pat_completeness auto
termination
  by (relation "measure (\<lambda>(part, io, r). MAX_RETRIES - r)") auto

declare final_attempt.simps [simp del]

text \<open>The outcome of uploading one chunk from \<open>retryCount = 0\<close>: that of its last attempt.\<close>

definition upload_outcome :: "PresignedPutPart \<Rightarrow> (nat \<Rightarrow> put_event) \<Rightarrow> js_error + string" where
  "upload_outcome part io = put_attempt part (put_reply (io (final_attempt part io 0)))"

text \<open>No Cancel press while the attempts \<open>r\<close> to the last one of a chunk are in flight.\<close>

definition quiet :: "PresignedPutPart \<Rightarrow> (nat \<Rightarrow> put_event) \<Rightarrow> bool" where
  "quiet part io = list_all (\<lambda>r. click_put (io r) = None) [0..<Suc (final_attempt part io 0)]"

fun is_put :: "event \<Rightarrow> bool" where
  "is_put (PutCall u c) = True"
| "is_put e = False"

fun is_complete :: "event \<Rightarrow> bool" where
  "is_complete (CompleteCall uid ps) = True"
| "is_complete e = False"

fun is_cancel :: "event \<Rightarrow> bool" where
  "is_cancel (CancelCall uid) = True"
| "is_cancel e = False"

text \<open>
  A Cancel press takes effect on an \<open>armed\<close> page (an upload in progress with a non-empty
  \<open>videoUid\<close>); a page is \<open>signalled\<close> once a press has taken effect.
\<close>

definition armed :: "string \<Rightarrow> page \<Rightarrow> bool" where
  "armed uid w \<longleftrightarrow> uploading w \<and> videoUid w = Some uid \<and> uid \<noteq> []"

definition signalled :: "string \<Rightarrow> page \<Rightarrow> bool" where
  "signalled uid w \<longleftrightarrow> cancelledRef w \<and> cancelled w \<and> CancelCall uid \<in> set (trace w)"

text \<open>
  The page once a status request has been sent and answered, and once the 5 s wait
  after it is over; a Cancel press may fall into either.
\<close>

definition asked :: "string \<Rightarrow> poll_event \<Rightarrow> page \<Rightarrow> page" where
  "asked uid r w = press (click_poll r) (w\<lparr>trace := trace w @ [StatusCall uid]\<rparr>)"

definition waited :: "poll_event \<Rightarrow> page \<Rightarrow> page" where
  "waited r w = press (click_wait r) (w\<lparr>trace := trace w @ [SetTimeout 5000]\<rparr>)"

text \<open>
  The page when the loop has announced chunk \<open>i\<close>, and when the upload of chunk \<open>i\<close> has
  returned.
\<close>

definition announced :: "nat \<Rightarrow> nat \<Rightarrow> page \<Rightarrow> page" where
  "announced i totalParts w =
     w\<lparr>status := ''Uploading chunk '' @ decimal (i + 1) @ ''/'' @ decimal totalParts @ ''...''\<rparr>"

definition uploaded ::
  "(nat \<Rightarrow> nat \<Rightarrow> put_event) \<Rightarrow> blob list \<Rightarrow> PresignedPutPart list \<Rightarrow> nat \<Rightarrow> nat \<Rightarrow> page \<Rightarrow> page" where
  "uploaded io chunks ps totalParts i w =
     snd (uploadChunkToS3 (io i) (chunks ! i) (ps ! i) 0 (announced i totalParts w))"

text \<open>
  The stages of one run of \<open>handleUpload\<close> on a page with a file selected: the chunks,
  the page after the resets, after the start request was sent, and after its answer
  was stored; the run of the loop; the page after the complete request; the run of the
  poller; and what the \<^verbatim>\<open>catch\<close> and \<^verbatim>\<open>finally\<close> blocks make of a page.
\<close>

definition chunks_of :: "File \<Rightarrow> blob list" where
  "chunks_of f = map (chunk_at CHUNK_SIZE (file_bytes f))
     [0..<chunk_count CHUNK_SIZE (length (file_bytes f))]"

definition page_reset :: "page \<Rightarrow> page" where
  "page_reset w = w\<lparr>uploading := True, error := [], status := ''Preparing upload...'',
     progress := 0, cancelled := False, cancelledRef := False, videoUid := None\<rparr>"

definition page_started :: "upload_io \<Rightarrow> File \<Rightarrow> page \<Rightarrow> page" where
  "page_started io f w =
     (page_reset w)\<lparr>status := ''Chunking file into '' @ decimal (length (chunks_of f)) @ '' parts...'',
       progress := 5,
       trace := trace w @ [StartCall (uploadId io) (file_name f) (length (chunks_of f))
                 (if file_type f \<noteq> [] then Some (file_type f) else None)]\<rparr>"

definition page_ready :: "upload_io \<Rightarrow> File \<Rightarrow> StartUploadResponse \<Rightarrow> page \<Rightarrow> page" where
  "page_ready io f sr w =
     (page_started io f w)\<lparr>videoUid := Some (video sr),
       status := ''Received '' @ decimal (length (parts sr)) @ '' presigned URLs'',
       progress := 10\<rparr>"

definition loop_run ::
  "upload_io \<Rightarrow> File \<Rightarrow> StartUploadResponse \<Rightarrow> page \<Rightarrow> (js_error + CompletePart list) \<times> page" where
  "loop_run io f sr w =
     upload_loop (put_io io) (chunks_of f) (parts sr) (length (chunks_of f)) 0 [] (page_ready io f sr w)"

definition page_completing :: "upload_io \<Rightarrow> StartUploadResponse \<Rightarrow> CompletePart list \<Rightarrow> page \<Rightarrow> page" where
  "page_completing io sr completeParts w =
     press (click_complete io)
       (w\<lparr>status := ''Completing upload...'', progress := 90,
          trace := trace w @ [CompleteCall (video sr) (sort_key PartNumber completeParts)]\<rparr>)"

definition poll_run :: "upload_io \<Rightarrow> StartUploadResponse \<Rightarrow> page \<Rightarrow> unit promise \<times> page" where
  "poll_run io sr w =
     pollStatus (click_timer io) (poll_io io) (video sr)
       (w\<lparr>progress := 99, status := ''Waiting for processing...''\<rparr>)"

definition caught :: "js_error \<Rightarrow> page \<Rightarrow> page" where
  "caught e w =
     (if \<not> cancelledRef w then w\<lparr>error := message e, status := ''Upload failed''\<rparr> else w)
       \<lparr>uploading := False\<rparr>"

definition settled :: "page \<Rightarrow> page" where
  "settled w =
     (if \<not> cancelledRef w then w\<lparr>status := ''Upload completed successfully!''\<rparr> else w)
       \<lparr>uploading := False\<rparr>"

text \<open>
  What holds of the page from the moment the start response is stored until the
  \<^verbatim>\<open>try\<close> block is left.
\<close>

definition running :: "string \<Rightarrow> page \<Rightarrow> bool" where
  "running uid w \<longleftrightarrow>
     uploading w \<and> videoUid w = Some uid \<and> error w = [] \<and> (cancelledRef w \<longrightarrow> cancelled w)
     \<and> status w \<noteq> ''Upload failed''"

text \<open>
  The events a run adds to the log; the events the loop over the chunks can add (a
  \<^verbatim>\<open>PUT\<close> of chunk \<open>j\<close> to the URL of the \<open>j\<close>-th part, or a cancel request), and those that
  can follow the complete request.
\<close>

definition issued :: "page \<Rightarrow> page \<Rightarrow> event list" where
  "issued w w' = drop (length (trace w)) (trace w')"

definition loop_event :: "blob list \<Rightarrow> PresignedPutPart list \<Rightarrow> event \<Rightarrow> bool" where
  "loop_event chunks ps e \<longleftrightarrow>
     is_cancel e \<or> (\<exists>j. j < length chunks \<and> j < length ps \<and> e = PutCall (url (ps ! j)) (chunks ! j))"

definition tail_event :: "event \<Rightarrow> bool" where
  "tail_event e \<longleftrightarrow> is_cancel e \<or> (\<exists>n. e = SetTimeout n) \<or> (\<exists>u. e = StatusCall u)"

definition extends :: "event list \<Rightarrow> (event \<Rightarrow> bool) \<Rightarrow> page \<Rightarrow> bool" where
  "extends t R w \<longleftrightarrow> (\<exists>es. trace w = t @ es \<and> (\<forall>e\<in>set es. R e))"

text \<open>
  The parts collected by the loop from index \<open>i\<close> on: entry \<open>k\<close> holds the token that the
  upload of chunk \<open>i + k\<close> returned, under the part number of the \<open>(i + k)\<close>-th part.
\<close>

definition records ::
  "(nat \<Rightarrow> nat \<Rightarrow> put_event) \<Rightarrow> PresignedPutPart list \<Rightarrow> nat \<Rightarrow> CompletePart list \<Rightarrow> bool" where
  "records io ps i new \<longleftrightarrow>
     (\<forall>k<length new. i + k < length ps
        \<and> upload_outcome (ps ! (i + k)) (io (i + k)) = Inr (ETag (new ! k))
        \<and> PartNumber (new ! k) = part_number (ps ! (i + k)))"

text \<open>The \<^verbatim>\<open>PUT\<close> requests of chunk \<open>j\<close>: one per attempt made.\<close>

definition attempts_of ::
  "(nat \<Rightarrow> nat \<Rightarrow> put_event) \<Rightarrow> blob list \<Rightarrow> PresignedPutPart list \<Rightarrow> nat \<Rightarrow> event list" where
  "attempts_of io chunks ps j =
     replicate (Suc (final_attempt (ps ! j) (io j) 0)) (PutCall (url (ps ! j)) (chunks ! j))"

section \<open>Concrete inputs\<close>

definition quoted_etag_response :: "unit response" where
  "quoted_etag_response = \<lparr>ok = True, status_code = 200, statusText = ''OK'', body_text = Inr [],
     body_json = Inr (),
     headers_get = (\<lambda>n. if n = ''ETag'' then Some (CHR 0x22 # ''abc123'' @ [CHR 0x22]) else None),
     headers_json = ''{}''\<rparr>"

definition etag_reply :: "string \<Rightarrow> string \<Rightarrow> unit response" where
  "etag_reply name v = \<lparr>ok = True, status_code = 200, statusText = ''OK'', body_text = Inr [],
     body_json = Inr (), headers_get = (\<lambda>n. if n = name then Some v else None),
     headers_json = ''{}''\<rparr>"

definition idle_page :: page where
  "idle_page = \<lparr>file' = None, uploading = False, progress = 0, status = [], error = [],
     videoUid = None, cancelled = False, cancelledRef = False, trace = []\<rparr>"

definition put_ok :: "string \<Rightarrow> unit response" where
  "put_ok etag = \<lparr>ok = True, status_code = 200, statusText = ''OK'', body_text = Inr [],
     body_json = Inr (), headers_get = (\<lambda>n. if n = ''ETag'' then Some etag else None),
     headers_json = ''{}''\<rparr>"

definition put_503 :: "unit response" where
  "put_503 = \<lparr>ok = False, status_code = 503, statusText = ''Service Unavailable'',
     body_text = Inr ''busy'', body_json = Inr (), headers_get = (\<lambda>n. None),
     headers_json = ''{}''\<rparr>"

definition offline :: "nat \<Rightarrow> put_event" where
  "offline r = \<lparr>click_put = None, put_reply = Inl (PlatformError ''Failed to fetch'')\<rparr>"

definition flaky :: "nat \<Rightarrow> put_event" where
  "flaky r = \<lparr>click_put = None,
     put_reply = (if r = 0 then Inl (PlatformError ''Failed to fetch'') else Inr (put_ok ''t1''))\<rparr>"

definition unavailable :: "nat \<Rightarrow> put_event" where
  "unavailable r = \<lparr>click_put = None, put_reply = Inr put_503\<rparr>"

definition part7 :: PresignedPutPart where
  "part7 = \<lparr>part_number = 7, url = ''https://store/7''\<rparr>"

definition polling_page :: page where
  "polling_page = \<lparr>file' = None, uploading = True, progress = 99, status = ''Waiting for processing...'',
     error = [], videoUid = Some ''v1'', cancelled = False, cancelledRef = False, trace = []\<rparr>"

definition status_reply :: "string \<Rightarrow> UploadStatus fetched" where
  "status_reply s = Inr \<lparr>ok = True, status_code = 200, statusText = ''OK'', body_text = Inr [],
     body_json = Inr \<lparr>us_status = s, us_video = ''v1''\<rparr>, headers_get = (\<lambda>n. None),
     headers_json = ''{}''\<rparr>"

definition round_of :: "UploadStatus fetched \<Rightarrow> poll_event" where
  "round_of reply = \<lparr>poll_reply = reply, click_poll = None, click_wait = None\<rparr>"

definition round_pressed :: "UploadStatus fetched \<Rightarrow> poll_event" where
  "round_pressed reply = \<lparr>poll_reply = reply, click_poll = Some (Inl (PlatformError ''Failed to fetch'')),
     click_wait = None\<rparr>"

definition small_file :: File where
  "small_file = \<lparr>file_name = ''clip.mp4'', file_type = ''video/mp4'', file_bytes = ''abc''\<rparr>"

definition selected :: "File \<Rightarrow> page" where
  "selected f = idle_page\<lparr>file' := Some f\<rparr>"

definition start_ok :: "PresignedPutPart list \<Rightarrow> StartUploadResponse fetched" where
  "start_ok ps = Inr \<lparr>ok = True, status_code = 200, statusText = ''OK'', body_text = Inr [],
     body_json = Inr \<lparr>parts = ps, video = ''v1''\<rparr>, headers_get = (\<lambda>n. None),
     headers_json = ''{}''\<rparr>"

definition plain_ok :: "unit fetched" where
  "plain_ok = Inr \<lparr>ok = True, status_code = 200, statusText = ''OK'', body_text = Inr [],
     body_json = Inr (), headers_get = (\<lambda>n. None), headers_json = ''{}''\<rparr>"

definition part1 :: PresignedPutPart where
  "part1 = \<lparr>part_number = 1, url = ''https://store/1''\<rparr>"

text \<open>Cancel is pressed during the first attempt of every chunk, and every attempt fails.\<close>

definition io_cancel_failing :: upload_io where
  "io_cancel_failing = \<lparr>uploadId = ''upload-1'', start_reply = start_ok [part1], click_start = None,
     put_io = (\<lambda>i r. \<lparr>click_put = (if r = 0 then Some plain_ok else None), put_reply = Inr put_503\<rparr>),
     complete_reply = plain_ok, click_complete = None, click_timer = None, poll_io = []\<rparr>"

definition io_start_refused :: upload_io where
  "io_start_refused = \<lparr>uploadId = ''upload-1'', start_reply = Inl (PlatformError ''Failed to fetch''),
     click_start = Some plain_ok, put_io = (\<lambda>i. offline), complete_reply = plain_ok,
     click_complete = None, click_timer = None, poll_io = []\<rparr>"

definition empty_file :: File where
  "empty_file = \<lparr>file_name = ''empty.bin'', file_type = [], file_bytes = []\<rparr>"

definition io_smooth :: "PresignedPutPart list \<Rightarrow> upload_io" where
  "io_smooth ps = \<lparr>uploadId = ''upload-1'', start_reply = start_ok ps, click_start = None,
     put_io = (\<lambda>i r. \<lparr>click_put = None, put_reply = Inr (put_ok ''t1'')\<rparr>),
     complete_reply = plain_ok, click_complete = None, click_timer = None,
     poll_io = [round_of (status_reply ''completed'')]\<rparr>"

definition large_file :: File where
  "large_file = \<lparr>file_name = ''film.mp4'', file_type = ''video/mp4'',
     file_bytes = replicate 5242881 (CHR ''a'')\<rparr>"

definition part_at :: "int \<Rightarrow> string \<Rightarrow> PresignedPutPart" where
  "part_at n u = \<lparr>part_number = n, url = u\<rparr>"

definition huge_file :: File where
  "huge_file = \<lparr>file_name = ''film.mp4'', file_type = ''video/mp4'',
     file_bytes = replicate 10485761 (CHR ''a'')\<rparr>"

definition three_parts :: "PresignedPutPart list" where
  "three_parts = [part_at 1 ''https://store/1'', part_at 2 ''https://store/2'',
     part_at 3 ''https://store/3'']"

text \<open>
  The first attempt of chunk 1 fails and Cancel is pressed while it is in flight; the
  backend cannot be reached for the cancel request. Every other attempt succeeds.
\<close>

definition io_cancel_second :: upload_io where
  "io_cancel_second = \<lparr>uploadId = ''upload-1'', start_reply = start_ok three_parts, click_start = None,
     put_io = (\<lambda>i r. \<lparr>click_put = (if i = 1 \<and> r = 0 then Some (Inl (PlatformError ''Failed to fetch'')) else None),
                      put_reply = (if i = 1 \<and> r = 0 then Inr put_503 else Inr (put_ok ''t1''))\<rparr>),
     complete_reply = plain_ok, click_complete = None, click_timer = None,
     poll_io = [round_of (status_reply ''completed'')]\<rparr>"

section \<open>Chunker: proofs\<close>

lemma chunk_count_less_iff:
  assumes "0 < C"
  shows "k < chunk_count C n \<longleftrightarrow> k * C < n"
proof -
  have "k < (n + C - 1) div C \<longleftrightarrow> Suc k \<le> (n + C - 1) div C" by arith
  also have "\<dots> \<longleftrightarrow> Suc k * C \<le> n + C - 1"
    using assms by (simp only: less_eq_div_iff_mult_less_eq)
  also have "\<dots> \<longleftrightarrow> k * C < n" using assms by (cases C) auto
  finally show ?thesis by (simp add: chunk_count_def)
qed

lemma chunkFile_loop_from:
  assumes "0 < C"
  shows "k \<le> chunk_count C (length b) \<Longrightarrow>
    chunkFile_loop C b (min (k * C) (length b)) acc
      = Some (acc @ map (chunk_at C b) [k..<chunk_count C (length b)])"
proof (induction "chunk_count C (length b) - k" arbitrary: k acc)
  case 0
  then have k: "k = chunk_count C (length b)" by simp
  then have "\<not> k * C < length b"
    using chunk_count_less_iff [OF assms, of k "length b"] by simp
  then have "min (k * C) (length b) = length b" by simp
  then show ?case
    by (subst chunkFile_loop.simps) (simp add: k)
next
  case (Suc d)
  then have lt: "k < chunk_count C (length b)" by simp
  then have kC: "k * C < length b"
    using chunk_count_less_iff [OF assms] by simp
  then have start: "min (k * C) (length b) = k * C" by simp
  have nxt: "min (k * C + C) (length b) = min (Suc k * C) (length b)"
    by (simp add: add.commute)
  have IH: "chunkFile_loop C b (min (Suc k * C) (length b)) (acc @ [chunk_at C b k])
      = Some ((acc @ [chunk_at C b k]) @ map (chunk_at C b) [Suc k..<chunk_count C (length b)])"
    using Suc lt by (intro Suc.hyps(1)) auto
  have "chunkFile_loop C b (k * C) acc
      = chunkFile_loop C b (min (Suc k * C) (length b)) (acc @ [chunk_at C b k])"
    by (subst chunkFile_loop.simps) (simp add: kC Let_def chunk_at_def add.commute)
  with IH show ?case
    by (simp add: start upt_conv_Cons [OF lt])
qed

lemma chunkFile_loop_total:
  assumes "0 < C"
  shows "chunkFile_loop C b 0 [] = Some (map (chunk_at C b) [0..<chunk_count C (length b)])"
  using chunkFile_loop_from [OF assms, of 0 b "[]"] by simp

lemma chunk_count_ceiling:
  assumes "0 < C"
  shows "int (chunk_count C n) = \<lceil>real n / real C\<rceil>"
proof -
  let ?m = "chunk_count C n"
  have up: "n \<le> ?m * C"
    using chunk_count_less_iff [OF assms, of ?m n] by simp
  have lo: "real ?m - 1 < real n / real C"
  proof (cases ?m)
    case 0
    have "0 \<le> real n / real C" by simp
    with 0 show ?thesis by linarith
  next
    case (Suc j)
    then have "j * C < n" using chunk_count_less_iff [OF assms, of j n] by simp
    then have "real (j * C) < real n" by (simp only: of_nat_less_iff)
    then have "real j < real n / real C"
      using assms by (simp add: pos_less_divide_eq)
    with Suc show ?thesis by simp
  qed
  have "real n \<le> real (?m * C)" using up by (simp only: of_nat_le_iff)
  then have hi: "real n / real C \<le> real ?m"
    using assms by (simp add: pos_divide_le_eq)
  have "\<lceil>real n / real C\<rceil> = int ?m"
    by (rule ceiling_unique) (use lo hi in simp_all)
  then show ?thesis by simp
qed

lemma concat_chunks_take: "concat (map (chunk_at C b) [0..<k]) = take (k * C) b"
proof (induction k)
  case 0
  then show ?case by simp
next
  case (Suc k)
  have "chunk_at C b k = take C (drop (k * C) b)"
    by (simp add: chunk_at_def slice_def min_def)
  then show ?case using Suc take_add [of "k * C" C b] by (simp add: add.commute)
qed

lemma chunkFile_total:
  "chunkFile f = Some (map (chunk_at CHUNK_SIZE (file_bytes f))
     [0..<chunk_count CHUNK_SIZE (length (file_bytes f))])"
  unfolding chunkFile_def by (rule chunkFile_loop_total) (simp add: CHUNK_SIZE_def)

lemma chunkFile_empty: "file_bytes f = [] \<Longrightarrow> chunkFile f = Some []"
  by (simp add: chunkFile_total chunk_count_def CHUNK_SIZE_def)

text \<open>
  C2. For a chunk size \<open>C \<ge> 1\<close> the chunking loop returns, with \<open>ceil(size / C)\<close> chunks;
  chunk \<open>i\<close> holds the bytes of the range from \<open>i * C\<close> to \<open>min ((i + 1) * C) size\<close>,
  which is not empty; each chunk but the last ends where the next one starts, the last
  one ends at \<open>size\<close>, and the chunks put together are the source. For size 0 there is
  no chunk. \<open>chunkFile\<close> is this loop at \<open>CHUNK_SIZE\<close>.
\<close>

theorem chunkFile_loop_covers:
  assumes "1 \<le> C"
  shows "chunkFile_loop C b 0 [] = Some (map (chunk_at C b) [0..<chunk_count C (length b)])
    \<and> int (chunk_count C (length b)) = \<lceil>real (length b) / real C\<rceil>
    \<and> (\<forall>i < chunk_count C (length b).
          chunk_at C b i = take (min ((i + 1) * C) (length b) - i * C) (drop (i * C) b)
          \<and> i * C < min ((i + 1) * C) (length b))
    \<and> (\<forall>i. Suc i < chunk_count C (length b) \<longrightarrow> min ((i + 1) * C) (length b) = (i + 1) * C)
    \<and> min (chunk_count C (length b) * C) (length b) = length b
    \<and> concat (map (chunk_at C b) [0..<chunk_count C (length b)]) = b
    \<and> (length b = 0 \<longrightarrow> chunk_count C (length b) = 0)
    \<and> chunkFile f = chunkFile_loop CHUNK_SIZE (file_bytes f) 0 []"
proof -
  have C: "0 < C" using assms by simp
  let ?n = "length b" and ?m = "chunk_count C (length b)"
  have cover: "?n \<le> ?m * C"
    using chunk_count_less_iff [OF C, of ?m ?n] by simp
  have ranges: "\<forall>i < ?m. chunk_at C b i = take (min ((i + 1) * C) ?n - i * C) (drop (i * C) b)
      \<and> i * C < min ((i + 1) * C) ?n"
    using C by (auto simp: chunk_at_def slice_def chunk_count_less_iff [OF C])
  have contiguous: "\<forall>i. Suc i < ?m \<longrightarrow> min ((i + 1) * C) ?n = (i + 1) * C"
    using chunk_count_less_iff [OF C, of "Suc _" ?n] by auto
  have whole: "concat (map (chunk_at C b) [0..<?m]) = b"
    using cover by (simp add: concat_chunks_take)
  have empty: "?n = 0 \<longrightarrow> ?m = 0"
    using chunk_count_less_iff [OF C, of 0 ?n] by auto
  show ?thesis
    using chunkFile_loop_total [OF C, of b] chunk_count_ceiling [OF C, of ?n]
      ranges contiguous cover whole empty
    by (simp add: chunkFile_def min_def)
qed

theorem chunkFile_loop_covers_witness:
  "(1::nat) \<le> 2
    \<and> chunkFile_loop 2 ''abcde'' 0 [] = Some [''ab'', ''cd'', ''e'']
    \<and> \<lceil>real (length ''abcde'') / real (2::nat)\<rceil> = 3
    \<and> concat [''ab'', ''cd'', ''e''] = ''abcde''"
  using chunkFile_loop_covers [of 2 "''abcde''"]
  by (simp add: chunk_at_def chunk_count_def slice_def upt_rec)

section \<open>Cancel: proofs\<close>

lemma press_None [simp]: "press None w = w"
  by (simp add: press_def)

lemma handleCancel_cases:
  "handleCancel reply w =
     (if (\<exists>uid. videoUid w = Some uid \<and> uid \<noteq> []) \<and> uploading w
      then w\<lparr>cancelled := True, cancelledRef := True, status := ''Cancelling upload...'',
             trace := trace w @ [CancelCall (the (videoUid w))]\<rparr>
      else w)"
  by (auto simp: handleCancel_def cancelUpload_def Let_def split: option.splits sum.splits)

lemma press_cases:
  "press c w =
     (if c \<noteq> None \<and> (\<exists>uid. videoUid w = Some uid \<and> uid \<noteq> []) \<and> uploading w
      then w\<lparr>cancelled := True, cancelledRef := True, status := ''Cancelling upload...'',
             trace := trace w @ [CancelCall (the (videoUid w))]\<rparr>
      else w)"
  by (cases c) (simp_all add: press_def handleCancel_cases)

lemma press_frame [simp]:
  "uploading (press c w) = uploading w"
  "videoUid (press c w) = videoUid w"
  "error (press c w) = error w"
  "file' (press c w) = file' w"
  "progress (press c w) = progress w"
  by (simp_all add: press_cases)

lemma press_cancelledRef: "cancelledRef w \<Longrightarrow> cancelledRef (press c w)"
  by (simp add: press_cases)

section \<open>Part uploader: proofs\<close>

lemma last_dropWhile: "dropWhile P xs \<noteq> [] \<Longrightarrow> last (dropWhile P xs) = last xs"
  by (induction xs) (auto split: if_splits)

lemma trim_trimmed:
  assumes "trim s \<noteq> []"
  shows "\<not> is_space (hd (trim s)) \<and> \<not> is_space (last (trim s))"
proof -
  let ?u = "dropWhile is_space s"
  let ?v = "dropWhile is_space (rev ?u)"
  have v: "?v \<noteq> []" using assms by (simp add: trim_def)
  then have u: "?u \<noteq> []" by (metis dropWhile.simps(1) rev.simps(1))
  have "\<not> is_space (hd ?v)" using v by (rule hd_dropWhile)
  then have l: "\<not> is_space (last (trim s))" using v by (simp add: trim_def last_rev)
  have "last ?v = last (rev ?u)" using v by (rule last_dropWhile)
  then have "hd (trim s) = hd ?u" using u v by (simp add: trim_def hd_rev last_rev)
  moreover have "\<not> is_space (hd ?u)" using u by (rule hd_dropWhile)
  ultimately show ?thesis using l by simp
qed

lemma strip_quotes_between:
  assumes "v = (if v \<noteq> [] \<and> is_quote (hd v) then [hd v] else []) @ m
                @ (if 1 < length v \<and> is_quote (last v) then [last v] else [])"
  shows "strip_quotes v = m"
proof (cases v)
  case Nil
  have "m = []" using assms unfolding Nil by simp
  then show ?thesis using Nil by (simp add: strip_quotes_def)
next
  case (Cons c cs)
  note eq = assms [unfolded Cons]
  show ?thesis
  proof (cases "cs \<noteq> [] \<and> is_quote (last cs)")
    case True
    show ?thesis
    proof (cases "is_quote c")
      case q: True
      have "cs = m @ [last cs]" using eq True q by simp
      then have "m = butlast cs" by (metis butlast_snoc)
      then show ?thesis using Cons True q by (simp add: strip_quotes_def)
    next
      case q: False
      have "c # cs = m @ [last cs]" using eq True q by simp
      then have "m = butlast (c # cs)" by (metis butlast_snoc)
      then show ?thesis using Cons True q by (simp add: strip_quotes_def)
    qed
  next
    case False
    show ?thesis
    proof (cases "is_quote c")
      case q: True
      have "cs = m" using eq False q by (cases "cs = []") auto
      then show ?thesis using Cons False q by (auto simp: strip_quotes_def)
    next
      case q: False
      have "c # cs = m" using eq False q by (cases "cs = []") auto
      then show ?thesis using Cons False q by (auto simp: strip_quotes_def)
    qed
  qed
qed

lemma trim_between:
  assumes "\<forall>c\<in>set pre. is_space c" "\<forall>c\<in>set post. is_space c"
    and "t = [] \<or> \<not> is_space (hd t) \<and> \<not> is_space (last t)"
  shows "trim (pre @ t @ post) = t"
proof (cases "t = []")
  case True
  have d: "dropWhile is_space (pre @ t @ post) = []"
    using assms(1,2) True by (auto simp: dropWhile_eq_Nil_conv)
  show ?thesis unfolding trim_def d using True by simp
next
  case False
  then have h: "\<not> is_space (hd t)" and l: "\<not> is_space (last t)" using assms(3) by auto
  have "dropWhile is_space (pre @ t @ post) = dropWhile is_space (t @ post)"
    using assms(1) by (simp add: dropWhile_append2)
  also have "\<dots> = t @ post" using False h by (cases t) auto
  finally have a: "dropWhile is_space (pre @ t @ post) = t @ post" .
  have "dropWhile is_space (rev post @ rev t) = dropWhile is_space (rev t)"
    by (rule dropWhile_append2) (use assms(2) in auto)
  also have "\<dots> = rev t" using False l by (cases "rev t") (auto simp: hd_rev)
  finally show ?thesis using a by (simp add: trim_def)
qed

lemma trim_splits:
  "\<exists>pre t post. s = pre @ t @ post \<and> (\<forall>c\<in>set pre. is_space c) \<and> (\<forall>c\<in>set post. is_space c)
     \<and> (t = [] \<or> \<not> is_space (hd t) \<and> \<not> is_space (last t))"
proof -
  let ?u = "dropWhile is_space s"
  let ?t = "rev (dropWhile is_space (rev ?u))"
  let ?post = "rev (takeWhile is_space (rev ?u))"
  have u: "?u = ?t @ ?post" by (metis rev_append rev_rev_ident takeWhile_dropWhile_id)
  have s: "s = takeWhile is_space s @ ?t @ ?post" using u by simp
  have p1: "\<forall>c\<in>set (takeWhile is_space s). is_space c" by (auto dest: set_takeWhileD)
  have p2: "\<forall>c\<in>set ?post. is_space c" by (auto dest: set_takeWhileD)
  have p3: "?t = [] \<or> \<not> is_space (hd ?t) \<and> \<not> is_space (last ?t)"
  proof (cases "?t = []")
    case False
    then have v: "dropWhile is_space (rev ?u) \<noteq> []" by simp
    then have "?u \<noteq> []" by (metis dropWhile.simps(1) rev.simps(1))
    then have hu: "\<not> is_space (hd ?u)" by (rule hd_dropWhile)
    have "hd ?t = hd ?u" using False u by (metis hd_append2)
    moreover have "\<not> is_space (hd (dropWhile is_space (rev ?u)))" using v by (rule hd_dropWhile)
    then have "\<not> is_space (last ?t)" using v by (simp add: last_rev)
    ultimately show ?thesis using hu by simp
  qed simp
  show ?thesis using s p1 p2 p3 by blast
qed

lemma quotes_split:
  "\<exists>m. v = (if v \<noteq> [] \<and> is_quote (hd v) then [hd v] else []) @ m
            @ (if 1 < length v \<and> is_quote (last v) then [last v] else [])"
proof (cases v)
  case Nil
  then show ?thesis by simp
next
  case (Cons c cs)
  show ?thesis
  proof (cases "cs = []")
    case True
    then show ?thesis using Cons by simp
  next
    case False
    then have cs: "cs = butlast cs @ [last cs]" by simp
    have l: "last v = last cs" using Cons False by simp
    have "\<exists>m. cs = m @ (if is_quote (last cs) then [last cs] else [])"
      using cs by (cases "is_quote (last cs)") auto
    then obtain m where m: "cs = m @ (if is_quote (last cs) then [last cs] else [])" ..
    show ?thesis
    proof (cases "is_quote c")
      case True
      then show ?thesis using Cons False l m by auto
    next
      case q: False
      have "c # cs = (c # m) @ (if is_quote (last cs) then [last cs] else [])" using m by simp
      then show ?thesis using Cons False l q by (auto simp del: append.simps intro!: exI [of _ "c # m"])
    qed
  qed
qed

lemma header_choice:
  "js_or (headers_get r ''ETag'') (js_or (headers_get r ''etag'') (js_or (headers_get r ''Etag'') [])) = v"
  if "headers_get r ''ETag'' = Some v \<and> v \<noteq> []
      \<or> headers_get r ''ETag'' \<in> {None, Some []} \<and> headers_get r ''etag'' = Some v \<and> v \<noteq> []
      \<or> headers_get r ''ETag'' \<in> {None, Some []} \<and> headers_get r ''etag'' \<in> {None, Some []}
          \<and> headers_get r ''Etag'' = Some v \<and> v \<noteq> []
      \<or> headers_get r ''ETag'' \<in> {None, Some []} \<and> headers_get r ''etag'' \<in> {None, Some []}
          \<and> headers_get r ''Etag'' \<in> {None, Some []} \<and> v = []"
  using that by (auto simp: js_or_def)


text \<open>
  C6. On a response with a success status the attempt takes the header value found under
  \<^verbatim>\<open>ETag\<close>, or else under \<^verbatim>\<open>etag\<close>, or else under \<^verbatim>\<open>Etag\<close> (an absent or empty value
  is passed over), removes a quote character at its first index and a quote character
  at its last index (when that is another index), and then trims the white space at
  both ends of what is left: for every way of writing the header value \<open>v\<close> as such
  quotes around \<open>pre @ t @ post\<close>, with \<open>pre\<close> and \<open>post\<close> white space and \<open>t\<close> empty or
  without white space at its ends, the attempt returns \<open>t\<close>, and fails with the
  missing-ETag error when \<open>t\<close> is empty, although the status was a success. Every
  response has such a header value and every header value can be written so. So the
  header \<^verbatim>\<open>"abc123"\<close> yields \<^verbatim>\<open>abc123\<close>, and so does an unquoted \<^verbatim>\<open>abc123\<close> with spaces
  around it; the quotes are looked for before the trimming, so a quoted token with
  white space outside its quotes keeps the quotes.
  The quote characters are \<^verbatim>\<open>"\<close> and \<^verbatim>\<open>'\<close>; the white space is that of
  \<^verbatim>\<open>String.prototype.trim\<close> in a byte string. With the header absent or empty under all
  three names the attempt fails; a token that is returned comes from a response with a
  success status, is not empty and has no white space at its ends.
\<close>

theorem etag_token_normalised:
  "(ok r
    \<and> (headers_get r ''ETag'' = Some v \<and> v \<noteq> []
       \<or> headers_get r ''ETag'' \<in> {None, Some []} \<and> headers_get r ''etag'' = Some v \<and> v \<noteq> []
       \<or> headers_get r ''ETag'' \<in> {None, Some []} \<and> headers_get r ''etag'' \<in> {None, Some []}
           \<and> headers_get r ''Etag'' = Some v \<and> v \<noteq> []
       \<or> headers_get r ''ETag'' \<in> {None, Some []} \<and> headers_get r ''etag'' \<in> {None, Some []}
           \<and> headers_get r ''Etag'' \<in> {None, Some []} \<and> v = [])
    \<and> v = (if v \<noteq> [] \<and> is_quote (hd v) then [hd v] else []) @ pre @ t @ post
            @ (if 1 < length v \<and> is_quote (last v) then [last v] else [])
    \<and> (\<forall>c\<in>set pre. is_space c) \<and> (\<forall>c\<in>set post. is_space c)
    \<and> (t = [] \<or> \<not> is_space (hd t) \<and> \<not> is_space (last t))
    \<longrightarrow> put_attempt part (Inr r) =
          (if t = [] then Inl (ETagError (part_number part) (status_code r) (headers_json r))
           else Inr t))
   \<and> (\<exists>v' pre' t' post'.
         (headers_get r ''ETag'' = Some v' \<and> v' \<noteq> []
          \<or> headers_get r ''ETag'' \<in> {None, Some []} \<and> headers_get r ''etag'' = Some v' \<and> v' \<noteq> []
          \<or> headers_get r ''ETag'' \<in> {None, Some []} \<and> headers_get r ''etag'' \<in> {None, Some []}
              \<and> headers_get r ''Etag'' = Some v' \<and> v' \<noteq> []
          \<or> headers_get r ''ETag'' \<in> {None, Some []} \<and> headers_get r ''etag'' \<in> {None, Some []}
              \<and> headers_get r ''Etag'' \<in> {None, Some []} \<and> v' = [])
         \<and> v' = (if v' \<noteq> [] \<and> is_quote (hd v') then [hd v'] else []) @ pre' @ t' @ post'
               @ (if 1 < length v' \<and> is_quote (last v') then [last v'] else [])
         \<and> (\<forall>c\<in>set pre'. is_space c) \<and> (\<forall>c\<in>set post'. is_space c)
         \<and> (t' = [] \<or> \<not> is_space (hd t') \<and> \<not> is_space (last t')))
   \<and> (is_quote c \<longleftrightarrow> c = CHR 0x22 \<or> c = CHR 0x27)
   \<and> (is_space c \<longleftrightarrow>
         c \<in> {CHR 0x09, CHR 0x0A, CHR 0x0B, CHR 0x0C, CHR 0x0D, CHR 0x20, CHR 0xA0})
   \<and> (ok r \<and> headers_get r ''ETag'' \<in> {None, Some []} \<and> headers_get r ''etag'' \<in> {None, Some []}
        \<and> headers_get r ''Etag'' \<in> {None, Some []}
      \<longrightarrow> put_attempt part (Inr r) = Inl (ETagError (part_number part) (status_code r) (headers_json r)))
   \<and> (put_attempt part (Inr r) = Inr u
      \<longrightarrow> ok r \<and> u \<noteq> [] \<and> \<not> is_space (hd u) \<and> \<not> is_space (last u))"
proof -
  let ?raw = "js_or (headers_get r ''ETag'') (js_or (headers_get r ''etag'') (js_or (headers_get r ''Etag'') []))"
  let ?fail = "Inl (ETagError (part_number part) (status_code r) (headers_json r)) :: js_error + string"
  have a: "put_attempt part (Inr r) = (if extract_etag r = [] then ?fail else Inr (extract_etag r))"
    if "ok r"
    using that by (simp add: put_attempt_def Let_def)
  have b: "put_attempt part (Inr r) = (if t = [] then ?fail else Inr t)"
    if "ok r"
      and sel: "headers_get r ''ETag'' = Some v \<and> v \<noteq> []
       \<or> headers_get r ''ETag'' \<in> {None, Some []} \<and> headers_get r ''etag'' = Some v \<and> v \<noteq> []
       \<or> headers_get r ''ETag'' \<in> {None, Some []} \<and> headers_get r ''etag'' \<in> {None, Some []}
           \<and> headers_get r ''Etag'' = Some v \<and> v \<noteq> []
       \<or> headers_get r ''ETag'' \<in> {None, Some []} \<and> headers_get r ''etag'' \<in> {None, Some []}
           \<and> headers_get r ''Etag'' \<in> {None, Some []} \<and> v = []"
      and dec: "v = (if v \<noteq> [] \<and> is_quote (hd v) then [hd v] else []) @ pre @ t @ post
            @ (if 1 < length v \<and> is_quote (last v) then [last v] else [])"
      and sp: "\<forall>c\<in>set pre. is_space c" "\<forall>c\<in>set post. is_space c"
      and tok: "t = [] \<or> \<not> is_space (hd t) \<and> \<not> is_space (last t)"
  proof -
    have raw: "?raw = v" using sel by (rule header_choice)
    have "v = (if v \<noteq> [] \<and> is_quote (hd v) then [hd v] else []) @ (pre @ t @ post)
            @ (if 1 < length v \<and> is_quote (last v) then [last v] else [])"
      using dec by simp
    then have "strip_quotes v = pre @ t @ post" by (rule strip_quotes_between)
    moreover have "trim (pre @ t @ post) = t" using sp tok by (rule trim_between)
    ultimately have "extract_etag r = t" using raw by (simp add: extract_etag_def)
    then show ?thesis using a [OF \<open>ok r\<close>] by simp
  qed
  have c: "\<exists>v' pre' t' post'.
         (headers_get r ''ETag'' = Some v' \<and> v' \<noteq> []
          \<or> headers_get r ''ETag'' \<in> {None, Some []} \<and> headers_get r ''etag'' = Some v' \<and> v' \<noteq> []
          \<or> headers_get r ''ETag'' \<in> {None, Some []} \<and> headers_get r ''etag'' \<in> {None, Some []}
              \<and> headers_get r ''Etag'' = Some v' \<and> v' \<noteq> []
          \<or> headers_get r ''ETag'' \<in> {None, Some []} \<and> headers_get r ''etag'' \<in> {None, Some []}
              \<and> headers_get r ''Etag'' \<in> {None, Some []} \<and> v' = [])
         \<and> v' = (if v' \<noteq> [] \<and> is_quote (hd v') then [hd v'] else []) @ pre' @ t' @ post'
               @ (if 1 < length v' \<and> is_quote (last v') then [last v'] else [])
         \<and> (\<forall>c\<in>set pre'. is_space c) \<and> (\<forall>c\<in>set post'. is_space c)
         \<and> (t' = [] \<or> \<not> is_space (hd t') \<and> \<not> is_space (last t'))"
  proof -
    have sel: "headers_get r ''ETag'' = Some ?raw \<and> ?raw \<noteq> []
          \<or> headers_get r ''ETag'' \<in> {None, Some []} \<and> headers_get r ''etag'' = Some ?raw \<and> ?raw \<noteq> []
          \<or> headers_get r ''ETag'' \<in> {None, Some []} \<and> headers_get r ''etag'' \<in> {None, Some []}
              \<and> headers_get r ''Etag'' = Some ?raw \<and> ?raw \<noteq> []
          \<or> headers_get r ''ETag'' \<in> {None, Some []} \<and> headers_get r ''etag'' \<in> {None, Some []}
              \<and> headers_get r ''Etag'' \<in> {None, Some []} \<and> ?raw = []"
      by (cases "headers_get r ''ETag''"; cases "headers_get r ''etag''"; cases "headers_get r ''Etag''")
         (simp_all add: js_or_def)
    obtain m where m: "?raw = (if ?raw \<noteq> [] \<and> is_quote (hd ?raw) then [hd ?raw] else []) @ m
            @ (if 1 < length ?raw \<and> is_quote (last ?raw) then [last ?raw] else [])"
      using quotes_split [of ?raw] by blast
    obtain pre' t' post' where p: "m = pre' @ t' @ post'" "\<forall>c\<in>set pre'. is_space c"
      "\<forall>c\<in>set post'. is_space c" "t' = [] \<or> \<not> is_space (hd t') \<and> \<not> is_space (last t')"
      using trim_splits [of m] by blast
    have "?raw = (if ?raw \<noteq> [] \<and> is_quote (hd ?raw) then [hd ?raw] else []) @ pre' @ t' @ post'
            @ (if 1 < length ?raw \<and> is_quote (last ?raw) then [last ?raw] else [])"
      by (subst m) (simp add: p(1))
    then show ?thesis using sel p(2,3,4) by blast
  qed
  have d: "is_quote c \<longleftrightarrow> c = CHR 0x22 \<or> c = CHR 0x27" by (simp add: is_quote_def)
  have e: "is_space c \<longleftrightarrow> c \<in> {CHR 0x09, CHR 0x0A, CHR 0x0B, CHR 0x0C, CHR 0x0D, CHR 0x20, CHR 0xA0}"
    by (simp add: is_space_def)
  have f: "put_attempt part (Inr r) = ?fail"
    if "ok r" "headers_get r ''ETag'' \<in> {None, Some []}" "headers_get r ''etag'' \<in> {None, Some []}"
       "headers_get r ''Etag'' \<in> {None, Some []}"
  proof -
    have "extract_etag r = []"
      using that by (auto simp: extract_etag_def js_or_def strip_quotes_def trim_def)
    then show ?thesis using a [OF that(1)] by simp
  qed
  have g: "ok r \<and> u \<noteq> [] \<and> \<not> is_space (hd u) \<and> \<not> is_space (last u)"
    if "put_attempt part (Inr r) = Inr u"
  proof -
    have okr: "ok r" using that by (auto simp: put_attempt_def split: if_splits sum.splits)
    with that a have "extract_etag r = u \<and> u \<noteq> []" by (auto split: if_splits)
    then show ?thesis using okr trim_trimmed [of "strip_quotes ?raw"] by (auto simp: extract_etag_def)
  qed
  show ?thesis
    apply (intro conjI)
    subgoal by (intro impI, elim conjE, rule b, assumption+)
    subgoal by (rule c)
    subgoal by (rule d)
    subgoal by (rule e)
    subgoal by (intro impI, elim conjE, rule f, assumption+)
    subgoal by (intro impI, erule g)
    done
qed


theorem etag_token_normalised_witness:
  "put_attempt \<lparr>part_number = 1, url = ''u''\<rparr> (Inr quoted_etag_response) = Inr ''abc123''
   \<and> put_attempt \<lparr>part_number = 1, url = ''u''\<rparr> (Inr (etag_reply ''etag'' ''  abc123 ''))
       = Inr ''abc123''
   \<and> put_attempt \<lparr>part_number = 1, url = ''u''\<rparr>
         (Inr (etag_reply ''Etag'' (CHR 0xA0 # CHR 0x22 # ''abc123'' @ [CHR 0x22, CHR 0xA0])))
       = Inr (CHR 0x22 # ''abc123'' @ [CHR 0x22])
   \<and> put_attempt \<lparr>part_number = 1, url = ''u''\<rparr> (Inr (etag_reply ''ETag'' [CHR 0x22, CHR 0x22]))
       = Inl (ETagError 1 200 ''{}'')
   \<and> put_attempt \<lparr>part_number = 1, url = ''u''\<rparr>
         (Inr (quoted_etag_response\<lparr>headers_get := (\<lambda>n. None)\<rparr>)) = Inl (ETagError 1 200 ''{}'')"
proof -
  let ?p = "\<lparr>part_number = 1, url = ''u''\<rparr>"
  have g1: "put_attempt ?p (Inr quoted_etag_response) = Inr ''abc123''"
    using etag_token_normalised [where r = quoted_etag_response and part = ?p
        and v = "CHR 0x22 # ''abc123'' @ [CHR 0x22]" and pre = "[]" and t = "''abc123''" and post = "[]",
        THEN conjunct1]
    by (simp add: quoted_etag_response_def is_quote_def is_space_def)
  have g2: "put_attempt ?p (Inr (etag_reply ''etag'' ''  abc123 '')) = Inr ''abc123''"
    using etag_token_normalised [where r = "etag_reply ''etag'' ''  abc123 ''" and part = ?p
        and v = "''  abc123 ''" and pre = "''  ''" and t = "''abc123''" and post = "'' ''",
        THEN conjunct1]
    by (simp add: etag_reply_def is_quote_def is_space_def)
  have g3: "put_attempt ?p
         (Inr (etag_reply ''Etag'' (CHR 0xA0 # CHR 0x22 # ''abc123'' @ [CHR 0x22, CHR 0xA0])))
       = Inr (CHR 0x22 # ''abc123'' @ [CHR 0x22])"
    using etag_token_normalised [where
        r = "etag_reply ''Etag'' (CHR 0xA0 # CHR 0x22 # ''abc123'' @ [CHR 0x22, CHR 0xA0])"
        and part = ?p and v = "CHR 0xA0 # CHR 0x22 # ''abc123'' @ [CHR 0x22, CHR 0xA0]"
        and pre = "[CHR 0xA0]" and t = "CHR 0x22 # ''abc123'' @ [CHR 0x22]" and post = "[CHR 0xA0]",
        THEN conjunct1]
    by (simp add: etag_reply_def is_quote_def is_space_def)
  have g4: "put_attempt ?p (Inr (etag_reply ''ETag'' [CHR 0x22, CHR 0x22])) = Inl (ETagError 1 200 ''{}'')"
    using etag_token_normalised [where r = "etag_reply ''ETag'' [CHR 0x22, CHR 0x22]" and part = ?p
        and v = "[CHR 0x22, CHR 0x22]" and pre = "[]" and t = "[]" and post = "[]",
        THEN conjunct1]
    by (simp add: etag_reply_def is_quote_def is_space_def)
  have g5: "put_attempt ?p (Inr (quoted_etag_response\<lparr>headers_get := (\<lambda>n. None)\<rparr>))
       = Inl (ETagError 1 200 ''{}'')"
    using etag_token_normalised [where r = "quoted_etag_response\<lparr>headers_get := (\<lambda>n. None)\<rparr>"
        and part = ?p and v = "[]" and pre = "[]" and t = "[]" and post = "[]",
        THEN conjunct1]
    by (simp add: quoted_etag_response_def)
  show ?thesis using g1 g2 g3 g4 g5 by (intro conjI)
qed

lemma final_attempt_ge: "r \<le> final_attempt part io r"
proof (induction part io r rule: final_attempt.induct)
  case (1 part io r)
  show ?case
    by (subst final_attempt.simps) (use 1 in \<open>auto simp: le_Suc_eq\<close>)
qed

lemma final_attempt_le: "r \<le> MAX_RETRIES \<Longrightarrow> final_attempt part io r \<le> MAX_RETRIES"
proof (induction part io r rule: final_attempt.induct)
  case (1 part io r)
  show ?case
    by (subst final_attempt.simps) (use 1 in auto)
qed

lemma final_attempt_stop:
  "\<not> (isl (put_attempt part (put_reply (io r))) \<and> r < MAX_RETRIES) \<Longrightarrow> final_attempt part io r = r"
  by (subst final_attempt.simps) auto

lemma final_attempt_step:
  "isl (put_attempt part (put_reply (io r))) \<Longrightarrow> r < MAX_RETRIES
    \<Longrightarrow> final_attempt part io r = final_attempt part io (Suc r)"
  by (subst final_attempt.simps) simp

lemma final_attempt_success:
  "r \<le> N \<Longrightarrow> N \<le> MAX_RETRIES
    \<Longrightarrow> \<forall>j. r \<le> j \<and> j < N \<longrightarrow> isl (put_attempt part (put_reply (io j)))
    \<Longrightarrow> \<not> isl (put_attempt part (put_reply (io N)))
    \<Longrightarrow> final_attempt part io r = N"
proof (induction "N - r" arbitrary: r)
  case 0
  then show ?case by (simp add: final_attempt_stop)
next
  case (Suc d)
  then have "r < N" by simp
  then have "isl (put_attempt part (put_reply (io r)))" "r < MAX_RETRIES"
    using Suc.prems by auto
  then have "final_attempt part io r = final_attempt part io (Suc r)"
    by (rule final_attempt_step)
  moreover have "final_attempt part io (Suc r) = N"
    using Suc \<open>r < N\<close> by (intro Suc.hyps(1)) auto
  ultimately show ?case by simp
qed

lemma final_attempt_exhaust:
  "r \<le> MAX_RETRIES
    \<Longrightarrow> \<forall>j. r \<le> j \<and> j \<le> MAX_RETRIES \<longrightarrow> isl (put_attempt part (put_reply (io j)))
    \<Longrightarrow> final_attempt part io r = MAX_RETRIES"
proof (induction "MAX_RETRIES - r" arbitrary: r)
  case 0
  then show ?case by (simp add: final_attempt_stop)
next
  case (Suc d)
  then have "r < MAX_RETRIES" by simp
  then have "final_attempt part io r = final_attempt part io (Suc r)"
    using Suc.prems by (intro final_attempt_step) auto
  moreover have "final_attempt part io (Suc r) = MAX_RETRIES"
    using Suc \<open>r < MAX_RETRIES\<close> by (intro Suc.hyps(1)) auto
  ultimately show ?case by simp
qed

lemma uploadChunkToS3_retry:
  "put_attempt part (put_reply (io r)) = Inl e \<Longrightarrow> r < MAX_RETRIES
    \<Longrightarrow> uploadChunkToS3 io chunk part r w
        = uploadChunkToS3 io chunk part (Suc r)
            (press (click_put (io r)) (w\<lparr>trace := trace w @ [PutCall (url part) chunk]\<rparr>))"
  by (subst uploadChunkToS3.simps) (simp add: Let_def)

lemma uploadChunkToS3_stop:
  "\<not> (isl (put_attempt part (put_reply (io r))) \<and> r < MAX_RETRIES)
    \<Longrightarrow> uploadChunkToS3 io chunk part r w
        = (put_attempt part (put_reply (io r)),
           press (click_put (io r)) (w\<lparr>trace := trace w @ [PutCall (url part) chunk]\<rparr>))"
  by (subst uploadChunkToS3.simps) (auto simp: Let_def split: sum.splits)

lemma uploadChunkToS3_cases [case_names retry stop]:
  assumes "\<And>e. put_attempt part (put_reply (io r)) = Inl e \<Longrightarrow> r < MAX_RETRIES
      \<Longrightarrow> final_attempt part io r = final_attempt part io (Suc r) \<Longrightarrow>
      uploadChunkToS3 io chunk part r w
        = uploadChunkToS3 io chunk part (Suc r)
            (press (click_put (io r)) (w\<lparr>trace := trace w @ [PutCall (url part) chunk]\<rparr>)) \<Longrightarrow> Q"
    and "final_attempt part io r = r \<Longrightarrow>
      uploadChunkToS3 io chunk part r w
        = (put_attempt part (put_reply (io r)),
           press (click_put (io r)) (w\<lparr>trace := trace w @ [PutCall (url part) chunk]\<rparr>)) \<Longrightarrow> Q"
  shows Q
proof (cases "isl (put_attempt part (put_reply (io r))) \<and> r < MAX_RETRIES")
  case True
  then obtain e where "put_attempt part (put_reply (io r)) = Inl e" by (auto simp: isl_def)
  with True show ?thesis
    using assms(1) final_attempt_step uploadChunkToS3_retry by blast
next
  case False
  then show ?thesis
    using assms(2) final_attempt_stop uploadChunkToS3_stop by blast
qed

lemma uploadChunkToS3_result:
  "fst (uploadChunkToS3 io chunk part r w) = put_attempt part (put_reply (io (final_attempt part io r)))"
proof (induction "MAX_RETRIES - r" arbitrary: r w)
  case 0
  then show ?case
    by (cases rule: uploadChunkToS3_cases [of part io r chunk w]) simp_all
next
  case (Suc d)
  show ?case
  proof (cases rule: uploadChunkToS3_cases [of part io r chunk w])
    case (retry e)
    then show ?thesis using Suc.hyps(1) [of "Suc r"] Suc.hyps(2) by simp
  next
    case stop
    then show ?thesis by simp
  qed
qed

lemma uploadChunkToS3_invariant:
  assumes step: "\<And>c w. P w \<Longrightarrow> P (press c (w\<lparr>trace := trace w @ [PutCall (url part) chunk]\<rparr>))"
  shows "P w \<Longrightarrow> P (snd (uploadChunkToS3 io chunk part r w))"
proof (induction "MAX_RETRIES - r" arbitrary: r w)
  case 0
  then show ?case
    by (cases rule: uploadChunkToS3_cases [of part io r chunk w]) (simp_all add: step)
next
  case (Suc d)
  show ?case
  proof (cases rule: uploadChunkToS3_cases [of part io r chunk w])
    case (retry e)
    then show ?thesis using Suc.hyps(1) [of "Suc r"] Suc.hyps(2) Suc.prems by (simp add: step)
  next
    case stop
    then show ?thesis using Suc.prems by (simp add: step)
  qed
qed

lemma uploadChunkToS3_puts:
  "filter is_put (trace (snd (uploadChunkToS3 io chunk part r w)))
     = filter is_put (trace w) @ replicate (Suc (final_attempt part io r - r)) (PutCall (url part) chunk)"
proof (induction "MAX_RETRIES - r" arbitrary: r w)
  case 0
  then show ?case
    by (cases rule: uploadChunkToS3_cases [of part io r chunk w]) (simp_all add: press_cases)
next
  case (Suc d)
  show ?case
  proof (cases rule: uploadChunkToS3_cases [of part io r chunk w])
    case (retry e)
    have "Suc r \<le> final_attempt part io (Suc r)" by (rule final_attempt_ge)
    then have n: "Suc (final_attempt part io (Suc r) - r) = Suc (Suc (final_attempt part io (Suc r) - Suc r))"
      by simp
    show ?thesis
      using Suc.hyps(1) [of "Suc r"] Suc.hyps(2) retry
      by (simp add: press_cases n)
  next
    case stop
    then show ?thesis by (simp add: press_cases)
  qed
qed

lemma uploadChunkToS3_quiet:
  "\<forall>j. r \<le> j \<and> j \<le> final_attempt part io r \<longrightarrow> click_put (io j) = None
    \<Longrightarrow> snd (uploadChunkToS3 io chunk part r w)
        = w\<lparr>trace := trace w @ replicate (Suc (final_attempt part io r - r)) (PutCall (url part) chunk)\<rparr>"
proof (induction "MAX_RETRIES - r" arbitrary: r w)
  case 0
  then show ?case
    by (cases rule: uploadChunkToS3_cases [of part io r chunk w]) simp_all
next
  case (Suc d)
  show ?case
  proof (cases rule: uploadChunkToS3_cases [of part io r chunk w])
    case (retry e)
    have ge: "Suc r \<le> final_attempt part io (Suc r)" by (rule final_attempt_ge)
    then have n: "Suc (final_attempt part io (Suc r) - r) = Suc (Suc (final_attempt part io (Suc r) - Suc r))"
      by simp
    have q: "click_put (io r) = None" using Suc.prems retry ge by simp
    have "\<forall>j. Suc r \<le> j \<and> j \<le> final_attempt part io (Suc r) \<longrightarrow> click_put (io j) = None"
      using Suc.prems retry by simp
    then show ?thesis
      using Suc.hyps(1) [of "Suc r"] Suc.hyps(2) retry q
      by (simp add: n)
  next
    case stop
    then show ?thesis using Suc.prems by simp
  qed
qed

lemma uploadChunkToS3_signalled:
  "armed uid w \<Longrightarrow> r \<le> j \<Longrightarrow> j \<le> final_attempt part io r \<Longrightarrow> click_put (io j) \<noteq> None
    \<Longrightarrow> signalled uid (snd (uploadChunkToS3 io chunk part r w))"
proof (induction "MAX_RETRIES - r" arbitrary: r w)
  case 0
  then show ?case
    by (cases rule: uploadChunkToS3_cases [of part io r chunk w])
      (auto simp: press_cases armed_def signalled_def)
next
  case (Suc d)
  let ?w1 = "press (click_put (io r)) (w\<lparr>trace := trace w @ [PutCall (url part) chunk]\<rparr>)"
  show ?case
  proof (cases rule: uploadChunkToS3_cases [of part io r chunk w])
    case (retry e)
    show ?thesis
    proof (cases "j = r")
      case True
      then have "signalled uid ?w1"
        using Suc.prems by (auto simp: press_cases armed_def signalled_def)
      then have "signalled uid (snd (uploadChunkToS3 io chunk part (Suc r) ?w1))"
        by (rule uploadChunkToS3_invariant [rotated]) (auto simp: press_cases signalled_def)
      then show ?thesis using retry by simp
    next
      case False
      have "armed uid ?w1" using Suc.prems(1) by (simp add: armed_def)
      then show ?thesis
        using Suc.hyps(1) [of "Suc r" ?w1] Suc.hyps(2) retry Suc.prems False by simp
    qed
  next
    case stop
    then show ?thesis using Suc.prems by (auto simp: press_cases armed_def signalled_def)
  qed
qed


text \<open>
  C3 (as amended). If the first \<open>N \<le> MAX_RETRIES\<close> attempts fail and the next one succeeds,
  the call returns that attempt's token after exactly \<open>N + 1\<close> requests. If every
  attempt fails, exactly \<open>MAX_RETRIES + 1\<close> requests are sent, all to the same URL with
  the same bytes, and the failure of the last attempt is what the caller gets; that
  error carries the part's number when it is one of the two errors the uploader raises
  itself (a non-success status whose body could be read, or a missing ETag). An error
  of a rejected request is passed on as it is.
\<close>

theorem retry_policy:
  "(N \<le> MAX_RETRIES \<and> (\<forall>r<N. isl (put_attempt part (put_reply (io r))))
      \<and> put_attempt part (put_reply (io N)) = Inr etag
    \<longrightarrow> fst (uploadChunkToS3 io chunk part 0 w) = Inr etag
        \<and> filter is_put (trace (snd (uploadChunkToS3 io chunk part 0 w)))
            = filter is_put (trace w) @ replicate (N + 1) (PutCall (url part) chunk))
   \<and> ((\<forall>r\<le>MAX_RETRIES. isl (put_attempt part (put_reply (io r))))
    \<longrightarrow> fst (uploadChunkToS3 io chunk part 0 w) = put_attempt part (put_reply (io MAX_RETRIES))
        \<and> filter is_put (trace (snd (uploadChunkToS3 io chunk part 0 w)))
            = filter is_put (trace w) @ replicate (MAX_RETRIES + 1) (PutCall (url part) chunk)
        \<and> (\<forall>resp. put_reply (io MAX_RETRIES) = Inr resp \<and> (ok resp \<or> \<not> isl (body_text resp))
              \<longrightarrow> (\<exists>e. fst (uploadChunkToS3 io chunk part 0 w) = Inl e
                        \<and> error_part e = Some (part_number part))))"
proof (intro conjI impI)
  assume a: "N \<le> MAX_RETRIES \<and> (\<forall>r<N. isl (put_attempt part (put_reply (io r))))
      \<and> put_attempt part (put_reply (io N)) = Inr etag"
  then have "final_attempt part io 0 = N"
    by (intro final_attempt_success) auto
  then show "fst (uploadChunkToS3 io chunk part 0 w) = Inr etag"
    and "filter is_put (trace (snd (uploadChunkToS3 io chunk part 0 w)))
            = filter is_put (trace w) @ replicate (N + 1) (PutCall (url part) chunk)"
    using a by (simp_all add: uploadChunkToS3_result uploadChunkToS3_puts)
next
  assume a: "\<forall>r\<le>MAX_RETRIES. isl (put_attempt part (put_reply (io r)))"
  then have fa: "final_attempt part io 0 = MAX_RETRIES"
    by (intro final_attempt_exhaust) auto
  then show r: "fst (uploadChunkToS3 io chunk part 0 w) = put_attempt part (put_reply (io MAX_RETRIES))"
    and "filter is_put (trace (snd (uploadChunkToS3 io chunk part 0 w)))
            = filter is_put (trace w) @ replicate (MAX_RETRIES + 1) (PutCall (url part) chunk)"
    by (simp_all add: uploadChunkToS3_result uploadChunkToS3_puts)
  show "\<forall>resp. put_reply (io MAX_RETRIES) = Inr resp \<and> (ok resp \<or> \<not> isl (body_text resp))
              \<longrightarrow> (\<exists>e. fst (uploadChunkToS3 io chunk part 0 w) = Inl e
                        \<and> error_part e = Some (part_number part))"
  proof (intro allI impI)
    fix resp
    assume b: "put_reply (io MAX_RETRIES) = Inr resp \<and> (ok resp \<or> \<not> isl (body_text resp))"
    have "isl (put_attempt part (put_reply (io MAX_RETRIES)))" using a by simp
    then show "\<exists>e. fst (uploadChunkToS3 io chunk part 0 w) = Inl e \<and> error_part e = Some (part_number part)"
      using b unfolding r
      by (auto simp: put_attempt_def Let_def split: if_splits sum.splits)
  qed
qed

theorem retry_policy_witness:
  "1 \<le> MAX_RETRIES
   \<and> isl (put_attempt part7 (put_reply (flaky 0)))
   \<and> put_attempt part7 (put_reply (flaky 1)) = Inr ''t1''
   \<and> fst (uploadChunkToS3 flaky ''abc'' part7 0 idle_page) = Inr ''t1''
   \<and> filter is_put (trace (snd (uploadChunkToS3 flaky ''abc'' part7 0 idle_page)))
       = [PutCall ''https://store/7'' ''abc'', PutCall ''https://store/7'' ''abc'']
   \<and> isl (put_attempt part7 (put_reply (unavailable 0)))
   \<and> isl (put_attempt part7 (put_reply (unavailable 1)))
   \<and> isl (put_attempt part7 (put_reply (unavailable 2)))
   \<and> fst (uploadChunkToS3 unavailable ''abc'' part7 0 idle_page)
       = Inl (ChunkUploadError 7 503 ''Service Unavailable'' ''busy'')
   \<and> filter is_put (trace (snd (uploadChunkToS3 unavailable ''abc'' part7 0 idle_page)))
       = [PutCall ''https://store/7'' ''abc'', PutCall ''https://store/7'' ''abc'',
          PutCall ''https://store/7'' ''abc'']"
proof -
  have m: "1 \<le> MAX_RETRIES" by (simp add: MAX_RETRIES_def)
  have f0: "isl (put_attempt part7 (put_reply (flaky 0)))"
    by (simp add: put_attempt_def flaky_def)
  have e1: "extract_etag (put_ok ''t1'') = ''t1''"
    by (simp add: extract_etag_def put_ok_def js_or_def strip_quotes_def trim_def is_quote_def is_space_def)
  have f1: "put_attempt part7 (put_reply (flaky 1)) = Inr ''t1''"
    by (simp add: put_attempt_def flaky_def e1) (simp add: put_ok_def)
  have u: "put_attempt part7 (put_reply (unavailable r))
      = Inl (ChunkUploadError 7 503 ''Service Unavailable'' ''busy'')" for r
    by (simp add: put_attempt_def unavailable_def put_503_def part7_def)
  have all0: "\<forall>r<1. isl (put_attempt part7 (put_reply (flaky r)))" using f0 by simp
  have allu: "\<forall>r\<le>MAX_RETRIES. isl (put_attempt part7 (put_reply (unavailable r)))"
    by (simp add: u)
  have a: "fst (uploadChunkToS3 flaky ''abc'' part7 0 idle_page) = Inr ''t1''
      \<and> filter is_put (trace (snd (uploadChunkToS3 flaky ''abc'' part7 0 idle_page)))
          = filter is_put (trace idle_page) @ replicate (1 + 1) (PutCall (url part7) ''abc'')"
    using retry_policy [of 1 part7 flaky "''t1''" "''abc''" idle_page] m all0 f1 by blast
  have b: "fst (uploadChunkToS3 unavailable ''abc'' part7 0 idle_page)
        = put_attempt part7 (put_reply (unavailable MAX_RETRIES))
      \<and> filter is_put (trace (snd (uploadChunkToS3 unavailable ''abc'' part7 0 idle_page)))
          = filter is_put (trace idle_page) @ replicate (MAX_RETRIES + 1) (PutCall (url part7) ''abc'')"
    using retry_policy [of 0 part7 unavailable "''t1''" "''abc''" idle_page] allu by blast
  have t: "filter is_put (trace idle_page) = []" "url part7 = ''https://store/7''"
    by (simp_all add: idle_page_def part7_def)
  show ?thesis
    using m f0 f1 a b u [of 0] u [of 1] u [of 2] u [of MAX_RETRIES]
    by (simp add: t MAX_RETRIES_def numeral_2_eq_2 numeral_3_eq_3)
qed

theorem retry_error_part_counterexample:
  "isl (put_attempt part7 (put_reply (offline 0)))
   \<and> isl (put_attempt part7 (put_reply (offline 1)))
   \<and> isl (put_attempt part7 (put_reply (offline 2)))
   \<and> fst (uploadChunkToS3 offline ''abc'' part7 0 idle_page) = Inl (PlatformError ''Failed to fetch'')
   \<and> error_part (PlatformError ''Failed to fetch'') \<noteq> Some (part_number part7)
   \<and> message (PlatformError ''Failed to fetch'') = ''Failed to fetch''"
proof -
  have o: "put_attempt part7 (put_reply (offline r)) = Inl (PlatformError ''Failed to fetch'')" for r
    by (simp add: put_attempt_def offline_def)
  show ?thesis
    by (simp add: uploadChunkToS3_result o)
qed

section \<open>Status poller: proofs\<close>

lemma poll_cancelled: "cancelledRef w \<Longrightarrow> poll uid rounds w = (Fulfilled (), w)"
  by (subst poll.simps) simp

lemma poll_Nil: "\<not> cancelledRef w \<Longrightarrow> poll uid [] w = (Pending, w)"
  by (subst poll.simps) simp

lemma poll_completed:
  "\<not> cancelledRef w \<Longrightarrow> status_result (poll_reply r) = Inr sd \<Longrightarrow> us_status sd = ''completed''
    \<Longrightarrow> poll uid (r # rest) w
        = (Fulfilled (), (asked uid r w)\<lparr>status := ''Status: '' @ us_status sd, progress := 100\<rparr>)"
  by (subst poll.simps) (simp add: checkStatus_def asked_def Let_def)

lemma poll_stopped:
  "\<not> cancelledRef w \<Longrightarrow> status_result (poll_reply r) = Inr sd \<Longrightarrow> us_status sd \<noteq> ''completed''
    \<Longrightarrow> cancelledRef (asked uid r w)
    \<Longrightarrow> poll uid (r # rest) w = (Fulfilled (), (asked uid r w)\<lparr>status := ''Status: '' @ us_status sd\<rparr>)"
  by (subst poll.simps) (simp add: checkStatus_def asked_def Let_def)

lemma poll_again:
  "\<not> cancelledRef w \<Longrightarrow> status_result (poll_reply r) = Inr sd \<Longrightarrow> us_status sd \<noteq> ''completed''
    \<Longrightarrow> \<not> cancelledRef (asked uid r w)
    \<Longrightarrow> poll uid (r # rest) w
        = poll uid rest (waited r ((asked uid r w)\<lparr>status := ''Status: '' @ us_status sd\<rparr>))"
  by (subst poll.simps) (simp add: checkStatus_def asked_def waited_def Let_def)

lemma poll_failed:
  "\<not> cancelledRef w \<Longrightarrow> status_result (poll_reply r) = Inl e \<Longrightarrow> \<not> cancelledRef (asked uid r w)
    \<Longrightarrow> poll uid (r # rest) w = (Rejected e, asked uid r w)"
  by (subst poll.simps) (simp add: checkStatus_def asked_def Let_def)

lemma poll_suppressed:
  "\<not> cancelledRef w \<Longrightarrow> status_result (poll_reply r) = Inl e \<Longrightarrow> cancelledRef (asked uid r w)
    \<Longrightarrow> poll uid (r # rest) w = (Fulfilled (), asked uid r w)"
  by (subst poll.simps) (simp add: checkStatus_def asked_def Let_def)

lemma poll_cases [case_names cancelled pending completed stopped again failed suppressed]:
  assumes "cancelledRef w \<Longrightarrow> poll uid rounds w = (Fulfilled (), w) \<Longrightarrow> Q"
    and "\<not> cancelledRef w \<Longrightarrow> rounds = [] \<Longrightarrow> poll uid rounds w = (Pending, w) \<Longrightarrow> Q"
    and "\<And>r rest sd. \<not> cancelledRef w \<Longrightarrow> rounds = r # rest \<Longrightarrow> status_result (poll_reply r) = Inr sd
          \<Longrightarrow> us_status sd = ''completed''
          \<Longrightarrow> poll uid rounds w
              = (Fulfilled (), (asked uid r w)\<lparr>status := ''Status: '' @ us_status sd, progress := 100\<rparr>)
          \<Longrightarrow> Q"
    and "\<And>r rest sd. \<not> cancelledRef w \<Longrightarrow> rounds = r # rest \<Longrightarrow> status_result (poll_reply r) = Inr sd
          \<Longrightarrow> us_status sd \<noteq> ''completed'' \<Longrightarrow> cancelledRef (asked uid r w)
          \<Longrightarrow> poll uid rounds w = (Fulfilled (), (asked uid r w)\<lparr>status := ''Status: '' @ us_status sd\<rparr>)
          \<Longrightarrow> Q"
    and "\<And>r rest sd. \<not> cancelledRef w \<Longrightarrow> rounds = r # rest \<Longrightarrow> status_result (poll_reply r) = Inr sd
          \<Longrightarrow> us_status sd \<noteq> ''completed'' \<Longrightarrow> \<not> cancelledRef (asked uid r w)
          \<Longrightarrow> poll uid rounds w
              = poll uid rest (waited r ((asked uid r w)\<lparr>status := ''Status: '' @ us_status sd\<rparr>))
          \<Longrightarrow> Q"
    and "\<And>r rest e. \<not> cancelledRef w \<Longrightarrow> rounds = r # rest \<Longrightarrow> status_result (poll_reply r) = Inl e
          \<Longrightarrow> \<not> cancelledRef (asked uid r w)
          \<Longrightarrow> poll uid rounds w = (Rejected e, asked uid r w) \<Longrightarrow> Q"
    and "\<And>r rest e. \<not> cancelledRef w \<Longrightarrow> rounds = r # rest \<Longrightarrow> status_result (poll_reply r) = Inl e
          \<Longrightarrow> cancelledRef (asked uid r w)
          \<Longrightarrow> poll uid rounds w = (Fulfilled (), asked uid r w) \<Longrightarrow> Q"
  shows Q
proof (cases "cancelledRef w")
  case True
  from True poll_cancelled [OF True] show ?thesis by (rule assms(1))
next
  case nc: False
  show ?thesis
  proof (cases rounds)
    case Nil
    have "poll uid rounds w = (Pending, w)" unfolding Nil using nc by (rule poll_Nil)
    with nc Nil show ?thesis by (rule assms(2))
  next
    case (Cons r rest)
    show ?thesis
    proof (cases "status_result (poll_reply r)")
      case (Inl e)
      show ?thesis
      proof (cases "cancelledRef (asked uid r w)")
        case True
        have "poll uid rounds w = (Fulfilled (), asked uid r w)"
          unfolding Cons using nc Inl True by (rule poll_suppressed)
        with nc Cons Inl True show ?thesis by (rule assms(7))
      next
        case False
        have "poll uid rounds w = (Rejected e, asked uid r w)"
          unfolding Cons using nc Inl False by (rule poll_failed)
        with nc Cons Inl False show ?thesis by (rule assms(6))
      qed
    next
      case (Inr sd)
      show ?thesis
      proof (cases "us_status sd = ''completed''")
        case True
        have "poll uid rounds w
            = (Fulfilled (), (asked uid r w)\<lparr>status := ''Status: '' @ us_status sd, progress := 100\<rparr>)"
          unfolding Cons using nc Inr True by (rule poll_completed)
        with nc Cons Inr True show ?thesis by (rule assms(3))
      next
        case other: False
        show ?thesis
        proof (cases "cancelledRef (asked uid r w)")
          case True
          have "poll uid rounds w = (Fulfilled (), (asked uid r w)\<lparr>status := ''Status: '' @ us_status sd\<rparr>)"
            unfolding Cons using nc Inr other True by (rule poll_stopped)
          with nc Cons Inr other True show ?thesis by (rule assms(4))
        next
          case False
          have "poll uid rounds w
              = poll uid rest (waited r ((asked uid r w)\<lparr>status := ''Status: '' @ us_status sd\<rparr>))"
            unfolding Cons using nc Inr other False by (rule poll_again)
          with nc Cons Inr other False show ?thesis by (rule assms(5))
        qed
      qed
    qed
  qed
qed

lemma poll_invariant:
  assumes press: "\<And>c w. P w \<Longrightarrow> P (press c w)"
    and log: "\<And>w e. P w \<Longrightarrow> e = StatusCall uid \<or> e = SetTimeout 5000 \<Longrightarrow> P (w\<lparr>trace := trace w @ [e]\<rparr>)"
    and status: "\<And>w s. P w \<Longrightarrow> s \<noteq> ''Upload failed'' \<Longrightarrow> P (w\<lparr>status := s\<rparr>)"
    and progress: "\<And>w x. P w \<Longrightarrow> P (w\<lparr>progress := x\<rparr>)"
  shows "P w \<Longrightarrow> P (snd (poll uid rounds w))"
proof (induction rounds arbitrary: w)
  case Nil
  then show ?case by (cases rule: poll_cases [of w uid "[]"]) simp_all
next
  case (Cons r0 rest0)
  have asked: "P (asked uid r w)" for r
    unfolding asked_def using Cons.prems by (intro press log) simp_all
  have st: "P ((asked uid r w)\<lparr>status := ''Status: '' @ s\<rparr>)" for r s
    using asked by (intro status) simp_all
  have wt: "P (waited r ((asked uid r w)\<lparr>status := ''Status: '' @ s\<rparr>))" for r s
    unfolding waited_def using st by (intro press log) simp_all
  show ?case
  proof (cases rule: poll_cases [of w uid "r0 # rest0"])
    case cancelled
    then show ?thesis using Cons.prems by simp
  next
    case pending
    then show ?thesis by simp
  next
    case (completed r rest sd)
    then show ?thesis using progress [OF st] by simp
  next
    case (stopped r rest sd)
    then show ?thesis using st by simp
  next
    case (again r rest sd)
    then show ?thesis using Cons.IH [OF wt] by simp
  next
    case (failed r rest e)
    then show ?thesis using asked by simp
  next
    case (suppressed r rest e)
    then show ?thesis using asked by simp
  qed
qed

lemma poll_rejected:
  "fst (poll uid rounds w) = Rejected e
    \<Longrightarrow> \<not> cancelledRef (snd (poll uid rounds w))
        \<and> (\<exists>r\<in>set rounds. status_result (poll_reply r) = Inl e)"
proof (induction rounds arbitrary: w)
  case Nil
  then show ?case by (cases rule: poll_cases [of w uid "[]"]) simp_all
next
  case (Cons r0 rest0)
  show ?case
  proof (cases rule: poll_cases [of w uid "r0 # rest0"])
    case (again r rest sd)
    then show ?thesis using Cons.prems Cons.IH [of "waited r ((asked uid r w)\<lparr>status := ''Status: '' @ us_status sd\<rparr>)"]
      by simp
  qed (use Cons.prems in \<open>simp_all\<close>)
qed

lemma poll_fulfilled:
  "fst (poll uid rounds w) = Fulfilled u
    \<Longrightarrow> cancelledRef (snd (poll uid rounds w))
        \<or> (\<exists>r\<in>set rounds. \<exists>sd. status_result (poll_reply r) = Inr sd \<and> us_status sd = ''completed'')"
proof (induction rounds arbitrary: w)
  case Nil
  then show ?case by (cases rule: poll_cases [of w uid "[]"]) simp_all
next
  case (Cons r0 rest0)
  show ?case
  proof (cases rule: poll_cases [of w uid "r0 # rest0"])
    case (again r rest sd)
    then show ?thesis using Cons.prems Cons.IH [of "waited r ((asked uid r w)\<lparr>status := ''Status: '' @ us_status sd\<rparr>)"]
      by auto
  qed (use Cons.prems in \<open>simp_all\<close>)
qed

text \<open>
  C8 (as amended). The poller first sets the 3 s timer. In each round it first reads the
  cancellation flag and, when set, resolves without a request. A reply with status
  \<open>completed\<close> resolves it with progress 100. Any other status sets the 5 s timer and
  goes to the next round, unless Cancel was pressed while the request was in flight:
  then the poller resolves at once, with no timer. A failed request rejects with the
  error of that request, unless Cancel was pressed during it: then the poller resolves.
  A rejection happens only that way, and a resolution only after a \<open>completed\<close> reply
  or with the flag set.
\<close>

theorem poller_contract:
  "(\<exists>es. trace (snd (pollStatus c rounds uid w)) = trace w @ SetTimeout 3000 # es)
   \<and> (cancelledRef w \<longrightarrow> poll uid rounds w = (Fulfilled (), w))
   \<and> (\<not> cancelledRef w \<and> status_result (poll_reply r) = Inr sd \<and> us_status sd = ''completed''
      \<longrightarrow> poll uid (r # rest) w
            = (Fulfilled (), (asked uid r w)\<lparr>status := ''Status: completed'', progress := 100\<rparr>))
   \<and> (\<not> cancelledRef w \<and> status_result (poll_reply r) = Inr sd \<and> us_status sd \<noteq> ''completed''
        \<and> \<not> cancelledRef (asked uid r w)
      \<longrightarrow> poll uid (r # rest) w
            = poll uid rest (waited r ((asked uid r w)\<lparr>status := ''Status: '' @ us_status sd\<rparr>)))
   \<and> (\<not> cancelledRef w \<and> status_result (poll_reply r) = Inr sd \<and> us_status sd \<noteq> ''completed''
        \<and> cancelledRef (asked uid r w)
      \<longrightarrow> poll uid (r # rest) w
            = (Fulfilled (), (asked uid r w)\<lparr>status := ''Status: '' @ us_status sd\<rparr>))
   \<and> (\<not> cancelledRef w \<and> status_result (poll_reply r) = Inl e \<and> \<not> cancelledRef (asked uid r w)
      \<longrightarrow> poll uid (r # rest) w = (Rejected e, asked uid r w))
   \<and> (\<not> cancelledRef w \<and> status_result (poll_reply r) = Inl e \<and> cancelledRef (asked uid r w)
      \<longrightarrow> poll uid (r # rest) w = (Fulfilled (), asked uid r w))
   \<and> (fst (poll uid rounds w) = Rejected e
      \<longrightarrow> \<not> cancelledRef (snd (poll uid rounds w))
          \<and> (\<exists>r\<in>set rounds. status_result (poll_reply r) = Inl e))
   \<and> (fst (poll uid rounds w) = Fulfilled ()
      \<longrightarrow> cancelledRef (snd (poll uid rounds w))
          \<or> (\<exists>r\<in>set rounds. \<exists>sd. status_result (poll_reply r) = Inr sd \<and> us_status sd = ''completed''))"
proof -
  let ?P = "\<lambda>w'. \<exists>es. trace w' = trace w @ SetTimeout 3000 # es"
  have "?P (press c (w\<lparr>trace := trace w @ [SetTimeout 3000]\<rparr>))"
    by (simp add: press_cases)
  then have "?P (snd (poll uid rounds (press c (w\<lparr>trace := trace w @ [SetTimeout 3000]\<rparr>))))"
    by (rule poll_invariant [rotated -1]) (auto simp: press_cases)
  then have a: "\<exists>es. trace (snd (pollStatus c rounds uid w)) = trace w @ SetTimeout 3000 # es"
    by (simp add: pollStatus_def)
  have b: "\<not> cancelledRef w \<and> status_result (poll_reply r) = Inr sd \<and> us_status sd = ''completed''
      \<longrightarrow> poll uid (r # rest) w
            = (Fulfilled (), (asked uid r w)\<lparr>status := ''Status: completed'', progress := 100\<rparr>)"
  proof
    assume h: "\<not> cancelledRef w \<and> status_result (poll_reply r) = Inr sd \<and> us_status sd = ''completed''"
    then have "poll uid (r # rest) w
        = (Fulfilled (), (asked uid r w)\<lparr>status := ''Status: '' @ us_status sd, progress := 100\<rparr>)"
      by (intro poll_completed) simp_all
    also have "''Status: '' @ us_status sd = ''Status: completed''" using h by simp
    finally show "poll uid (r # rest) w
        = (Fulfilled (), (asked uid r w)\<lparr>status := ''Status: completed'', progress := 100\<rparr>)" .
  qed
  show ?thesis
    apply (intro conjI)
            apply (rule a)
           apply (blast intro: poll_cancelled)
          apply (rule b)
         apply (blast intro: poll_again)
        apply (blast intro: poll_stopped)
       apply (blast intro: poll_failed)
      apply (blast intro: poll_suppressed)
     apply (blast dest: poll_rejected)
    apply (blast dest: poll_fulfilled)
    done
qed

theorem poller_contract_witness:
  "\<not> cancelledRef polling_page
   \<and> status_result (poll_reply (round_of (status_reply ''processing'')))
       = Inr \<lparr>us_status = ''processing'', us_video = ''v1''\<rparr>
   \<and> \<not> cancelledRef (asked ''v1'' (round_of (status_reply ''processing'')) polling_page)
   \<and> poll ''v1'' [round_of (status_reply ''processing''), round_of (status_reply ''completed'')] polling_page
       = (Fulfilled (), polling_page\<lparr>status := ''Status: completed'', progress := 100,
            trace := [StatusCall ''v1'', SetTimeout 5000, StatusCall ''v1'']\<rparr>)
   \<and> poll ''v1'' [round_of (Inl (PlatformError ''Failed to fetch''))] polling_page
       = (Rejected (PlatformError ''Failed to fetch''), polling_page\<lparr>trace := [StatusCall ''v1'']\<rparr>)
   \<and> poll ''v1'' [round_of (status_reply ''completed'')] (polling_page\<lparr>cancelledRef := True\<rparr>)
       = (Fulfilled (), polling_page\<lparr>cancelledRef := True\<rparr>)"
proof -
  let ?r1 = "round_of (status_reply ''processing'')" and ?r2 = "round_of (status_reply ''completed'')"
  let ?r3 = "round_of (Inl (PlatformError ''Failed to fetch''))"
  let ?sd1 = "\<lparr>us_status = ''processing'', us_video = ''v1''\<rparr>"
  let ?sd2 = "\<lparr>us_status = ''completed'', us_video = ''v1''\<rparr>"
  have nc: "\<not> cancelledRef polling_page" by (simp add: polling_page_def)
  have s1: "status_result (poll_reply ?r1) = Inr ?sd1"
    and s2: "status_result (poll_reply ?r2) = Inr ?sd2"
    and s3: "status_result (poll_reply ?r3) = Inl (PlatformError ''Failed to fetch'')"
    by (simp_all add: status_result_def round_of_def status_reply_def)
  have a1: "asked ''v1'' ?r1 polling_page = polling_page\<lparr>trace := [StatusCall ''v1'']\<rparr>"
    and a3: "asked ''v1'' ?r3 polling_page = polling_page\<lparr>trace := [StatusCall ''v1'']\<rparr>"
    by (simp_all add: asked_def round_of_def polling_page_def)
  let ?w1 = "waited ?r1 ((asked ''v1'' ?r1 polling_page)\<lparr>status := ''Status: '' @ us_status ?sd1\<rparr>)"
  have w1: "?w1 = polling_page\<lparr>status := ''Status: processing'',
      trace := [StatusCall ''v1'', SetTimeout 5000]\<rparr>"
    by (simp add: waited_def asked_def round_of_def polling_page_def)
  have nc1: "\<not> cancelledRef (asked ''v1'' ?r1 polling_page)" by (simp add: a1 nc)
  have nc3: "\<not> cancelledRef (asked ''v1'' ?r3 polling_page)" by (simp add: a3 nc)
  have ncw: "\<not> cancelledRef ?w1" by (simp only: w1) (simp add: nc)
  have a2: "asked ''v1'' ?r2 ?w1 = polling_page\<lparr>status := ''Status: processing'',
      trace := [StatusCall ''v1'', SetTimeout 5000, StatusCall ''v1'']\<rparr>"
    by (simp only: w1) (simp add: asked_def round_of_def polling_page_def)
  have "poll ''v1'' [?r1, ?r2] polling_page = poll ''v1'' [?r2] ?w1"
    using poller_contract [of _ _ "''v1''" polling_page ?r1 ?sd1 "[?r2]"] nc s1 nc1
    by simp
  also have "\<dots> = (Fulfilled (), (asked ''v1'' ?r2 ?w1)\<lparr>status := ''Status: completed'', progress := 100\<rparr>)"
    using poller_contract [of _ _ "''v1''" ?w1 ?r2 ?sd2 "[]"] ncw s2
    by simp
  also have "\<dots> = (Fulfilled (), polling_page\<lparr>status := ''Status: completed'', progress := 100,
            trace := [StatusCall ''v1'', SetTimeout 5000, StatusCall ''v1'']\<rparr>)"
    by (simp only: a2) (simp add: polling_page_def)
  finally have g1: "poll ''v1'' [?r1, ?r2] polling_page
       = (Fulfilled (), polling_page\<lparr>status := ''Status: completed'', progress := 100,
            trace := [StatusCall ''v1'', SetTimeout 5000, StatusCall ''v1'']\<rparr>)" .
  have g2: "poll ''v1'' [?r3] polling_page
       = (Rejected (PlatformError ''Failed to fetch''), polling_page\<lparr>trace := [StatusCall ''v1'']\<rparr>)"
    using poller_contract [of _ _ "''v1''" polling_page ?r3 _ "[]" "PlatformError ''Failed to fetch''"] nc s3 nc3
    by (simp add: a3)
  have g3: "poll ''v1'' [?r2] (polling_page\<lparr>cancelledRef := True\<rparr>)
       = (Fulfilled (), polling_page\<lparr>cancelledRef := True\<rparr>)"
    using poller_contract [of _ "[?r2]" "''v1''" "polling_page\<lparr>cancelledRef := True\<rparr>"]
    by simp
  show ?thesis using nc s1 nc1 g1 g2 g3 by blast
qed

theorem poller_wait_counterexample:
  "us_status \<lparr>us_status = ''processing'', us_video = ''v1''\<rparr> \<noteq> ''completed''
   \<and> status_result (poll_reply (round_pressed (status_reply ''processing'')))
       = Inr \<lparr>us_status = ''processing'', us_video = ''v1''\<rparr>
   \<and> poll ''v1'' [round_pressed (status_reply ''processing''), round_of (status_reply ''completed'')]
         polling_page
       = (Fulfilled (), polling_page\<lparr>cancelled := True, cancelledRef := True,
            status := ''Status: processing'', trace := [StatusCall ''v1'', CancelCall ''v1'']\<rparr>)"
proof -
  let ?r = "round_pressed (status_reply ''processing'')"
  have nc: "\<not> cancelledRef polling_page" by (simp add: polling_page_def)
  have s: "status_result (poll_reply ?r) = Inr \<lparr>us_status = ''processing'', us_video = ''v1''\<rparr>"
    by (simp add: status_result_def round_pressed_def status_reply_def)
  have a: "asked ''v1'' ?r polling_page = polling_page\<lparr>cancelled := True, cancelledRef := True,
      status := ''Cancelling upload...'', trace := [StatusCall ''v1'', CancelCall ''v1'']\<rparr>"
    by (simp add: asked_def round_pressed_def polling_page_def press_cases)
  have c: "cancelledRef (asked ''v1'' ?r polling_page)" by (simp add: a)
  have "poll ''v1'' [?r, round_of (status_reply ''completed'')] polling_page
      = (Fulfilled (), (asked ''v1'' ?r polling_page)\<lparr>status := ''Status: '' @ ''processing''\<rparr>)"
    using poll_stopped [OF nc s _ c] by simp
  then show ?thesis using s by (simp add: a)
qed

section \<open>Upload loop: proofs\<close>

lemma upload_loop_done:
  "\<not> i < length chunks \<Longrightarrow> upload_loop io chunks ps n i acc w = (Inr acc, w)"
  by (subst upload_loop.simps) simp

lemma upload_loop_break:
  "i < length chunks \<Longrightarrow> cancelledRef w
    \<Longrightarrow> upload_loop io chunks ps n i acc w
        = (Inr acc, w\<lparr>status := ''Upload cancelled. Finishing current chunk uploads...''\<rparr>)"
  by (subst upload_loop.simps) simp

lemma upload_loop_undefined:
  "i < length chunks \<Longrightarrow> \<not> cancelledRef w \<Longrightarrow> \<not> i < length ps
    \<Longrightarrow> upload_loop io chunks ps n i acc w = (Inl UndefinedPart, announced i n w)"
  by (subst upload_loop.simps) (simp add: nth_opt_def announced_def)

lemma upload_loop_failed:
  assumes "i < length chunks" "\<not> cancelledRef w" "i < length ps"
    "upload_outcome (ps ! i) (io i) = Inl e"
  shows "upload_loop io chunks ps n i acc w = (Inl e, uploaded io chunks ps n i w)"
proof -
  obtain r w2 where u: "uploadChunkToS3 (io i) (chunks ! i) (ps ! i) 0 (announced i n w) = (r, w2)"
    by fastforce
  have r: "r = Inl e"
    using uploadChunkToS3_result [of "io i" "chunks ! i" "ps ! i" 0 "announced i n w"] u assms(4)
    by (simp add: upload_outcome_def)
  show ?thesis
    using assms(1-3) u r
    by (subst upload_loop.simps) (simp add: nth_opt_def uploaded_def announced_def)
qed

lemma upload_loop_next:
  assumes "i < length chunks" "\<not> cancelledRef w" "i < length ps"
    "upload_outcome (ps ! i) (io i) = Inr etag"
  shows "upload_loop io chunks ps n i acc w
        = upload_loop io chunks ps n (Suc i) (acc @ [\<lparr>ETag = etag, PartNumber = part_number (ps ! i)\<rparr>])
            ((uploaded io chunks ps n i w)\<lparr>progress := 10 + (real i + 1) * (80 / real n)\<rparr>)"
proof -
  obtain r w2 where u: "uploadChunkToS3 (io i) (chunks ! i) (ps ! i) 0 (announced i n w) = (r, w2)"
    by fastforce
  have r: "r = Inr etag"
    using uploadChunkToS3_result [of "io i" "chunks ! i" "ps ! i" 0 "announced i n w"] u assms(4)
    by (simp add: upload_outcome_def)
  show ?thesis
    using assms(1-3) u r
    by (subst upload_loop.simps) (simp add: nth_opt_def uploaded_def announced_def)
qed

lemma upload_loop_cases [case_names finished stopped no_part failed continue]:
  assumes "\<not> i < length chunks \<Longrightarrow> upload_loop io chunks ps n i acc w = (Inr acc, w) \<Longrightarrow> Q"
    and "i < length chunks \<Longrightarrow> cancelledRef w
      \<Longrightarrow> upload_loop io chunks ps n i acc w
          = (Inr acc, w\<lparr>status := ''Upload cancelled. Finishing current chunk uploads...''\<rparr>) \<Longrightarrow> Q"
    and "i < length chunks \<Longrightarrow> \<not> cancelledRef w \<Longrightarrow> \<not> i < length ps
      \<Longrightarrow> upload_loop io chunks ps n i acc w = (Inl UndefinedPart, announced i n w) \<Longrightarrow> Q"
    and "\<And>e. i < length chunks \<Longrightarrow> \<not> cancelledRef w \<Longrightarrow> i < length ps
      \<Longrightarrow> upload_outcome (ps ! i) (io i) = Inl e
      \<Longrightarrow> upload_loop io chunks ps n i acc w = (Inl e, uploaded io chunks ps n i w) \<Longrightarrow> Q"
    and "\<And>etag. i < length chunks \<Longrightarrow> \<not> cancelledRef w \<Longrightarrow> i < length ps
      \<Longrightarrow> upload_outcome (ps ! i) (io i) = Inr etag
      \<Longrightarrow> upload_loop io chunks ps n i acc w
          = upload_loop io chunks ps n (Suc i) (acc @ [\<lparr>ETag = etag, PartNumber = part_number (ps ! i)\<rparr>])
              ((uploaded io chunks ps n i w)\<lparr>progress := 10 + (real i + 1) * (80 / real n)\<rparr>)
      \<Longrightarrow> Q"
  shows Q
proof (cases "i < length chunks")
  case False
  from False upload_loop_done [OF False] show ?thesis by (rule assms(1))
next
  case lt: True
  show ?thesis
  proof (cases "cancelledRef w")
    case True
    from lt True upload_loop_break [OF lt True] show ?thesis by (rule assms(2))
  next
    case nc: False
    show ?thesis
    proof (cases "i < length ps")
      case False
      from lt nc False upload_loop_undefined [OF lt nc False] show ?thesis by (rule assms(3))
    next
      case inps: True
      show ?thesis
      proof (cases "upload_outcome (ps ! i) (io i)")
        case (Inl e)
        from lt nc inps Inl
          upload_loop_failed [where io = io and i = i and e = e, OF lt nc inps Inl]
        show ?thesis by (rule assms(4))
      next
        case (Inr etag)
        from lt nc inps Inr
          upload_loop_next [where io = io and i = i and etag = etag, OF lt nc inps Inr]
        show ?thesis by (rule assms(5))
      qed
    qed
  qed
qed

lemma uploaded_invariant:
  assumes press: "\<And>c w. P w \<Longrightarrow> P (press c w)"
    and log: "\<And>w. P w \<Longrightarrow> P (w\<lparr>trace := trace w @ [PutCall (url (ps ! i)) (chunks ! i)]\<rparr>)"
    and status: "\<And>w s. P w \<Longrightarrow> s \<noteq> ''Upload failed'' \<Longrightarrow> P (w\<lparr>status := s\<rparr>)"
    and start: "P w"
  shows "P (uploaded io chunks ps n i w)"
proof -
  have "P (announced i n w)"
    unfolding announced_def by (rule status [OF start]) simp
  then show ?thesis
    unfolding uploaded_def
  proof (rule uploadChunkToS3_invariant [rotated])
    fix c w'
    assume "P w'"
    then show "P (press c (w'\<lparr>trace := trace w' @ [PutCall (url (ps ! i)) (chunks ! i)]\<rparr>))"
      by (intro press log)
  qed
qed

lemma upload_loop_invariant:
  assumes press: "\<And>c w. P w \<Longrightarrow> P (press c w)"
    and log: "\<And>w j. P w \<Longrightarrow> i \<le> j \<Longrightarrow> j < length chunks \<Longrightarrow> j < length ps
      \<Longrightarrow> P (w\<lparr>trace := trace w @ [PutCall (url (ps ! j)) (chunks ! j)]\<rparr>)"
    and status: "\<And>w s. P w \<Longrightarrow> s \<noteq> ''Upload failed'' \<Longrightarrow> P (w\<lparr>status := s\<rparr>)"
    and progress: "\<And>w x. P w \<Longrightarrow> P (w\<lparr>progress := x\<rparr>)"
  shows "P w \<Longrightarrow> P (snd (upload_loop io chunks ps n i acc w))"
  using log
proof (induction "length chunks - i" arbitrary: i acc w)
  case 0
  then have "upload_loop io chunks ps n i acc w = (Inr acc, w)"
    by (intro upload_loop_done) simp
  with "0.prems"(1) show ?case by simp
next
  case (Suc d)
  note start = Suc.prems(1) and log' = Suc.prems(2)
  have up: "P (uploaded io chunks ps n i w)" if "i < length chunks" "i < length ps"
  proof (rule uploaded_invariant [of P, OF press _ status start])
    fix w'
    assume "P w'"
    then show "P (w'\<lparr>trace := trace w' @ [PutCall (url (ps ! i)) (chunks ! i)]\<rparr>)"
      using that by (intro log') simp_all
  qed
  show ?case
  proof (cases rule: upload_loop_cases [of i chunks io ps n acc w])
    case finished
    with start show ?thesis by simp
  next
    case stopped
    have "P (w\<lparr>status := ''Upload cancelled. Finishing current chunk uploads...''\<rparr>)"
      by (rule status [OF start]) simp
    with stopped show ?thesis by simp
  next
    case no_part
    have "P (announced i n w)"
      unfolding announced_def by (rule status [OF start]) simp
    with no_part show ?thesis by simp
  next
    case (failed e)
    with up show ?thesis by simp
  next
    case (continue etag)
    let ?w = "(uploaded io chunks ps n i w)\<lparr>progress := 10 + (real i + 1) * (80 / real n)\<rparr>"
    have d: "d = length chunks - Suc i" using Suc.hyps(2) by simp
    have "P ?w" using continue by (intro progress up)
    moreover have "\<And>w j. P w \<Longrightarrow> Suc i \<le> j \<Longrightarrow> j < length chunks \<Longrightarrow> j < length ps
      \<Longrightarrow> P (w\<lparr>trace := trace w @ [PutCall (url (ps ! j)) (chunks ! j)]\<rparr>)"
      by (rule log') simp_all
    ultimately have "P (snd (upload_loop io chunks ps n (Suc i)
        (acc @ [\<lparr>ETag = etag, PartNumber = part_number (ps ! i)\<rparr>]) ?w))"
      by (rule Suc.hyps(1) [OF d])
    with continue show ?thesis by simp
  qed
qed

section \<open>Coordinator: proofs\<close>

lemma chunkFile_chunks_of: "chunkFile f = Some (chunks_of f)"
  by (simp add: chunkFile_total chunks_of_def)

lemma page_ready_fields [simp]:
  "\<not> cancelledRef (page_ready io f sr w)" "\<not> cancelled (page_ready io f sr w)"
  "uploading (page_ready io f sr w)" "videoUid (page_ready io f sr w) = Some (video sr)"
  "error (page_ready io f sr w) = []" "file' (page_ready io f sr w) = file' w"
  "trace (page_ready io f sr w) = trace w @ [StartCall (uploadId io) (file_name f) (length (chunks_of f))
                 (if file_type f \<noteq> [] then Some (file_type f) else None)]"
  by (simp_all add: page_ready_def page_started_def page_reset_def)

lemma handleUpload_try_eq:
  "handleUpload_try io f (page_reset w) =
     (case start_result (start_reply io) of
        Inl e \<Rightarrow> (Rejected e, page_started io f w)
      | Inr sr \<Rightarrow>
          (case loop_run io f sr w of
             (Inl e, w4) \<Rightarrow> (Rejected e, w4)
           | (Inr completeParts, w4) \<Rightarrow>
               if cancelledRef w4 then (Fulfilled (), w4\<lparr>status := ''Upload cancelled''\<rparr>)
               else
                 (case complete_result (complete_reply io) of
                    Inl e \<Rightarrow> (Rejected e, page_completing io sr completeParts w4)
                  | Inr u \<Rightarrow>
                      (case poll_run io sr (page_completing io sr completeParts w4) of
                         (Rejected e, w8) \<Rightarrow> (Rejected e, w8)
                       | (Pending, w8) \<Rightarrow> (Pending, w8)
                       | (Fulfilled u, w8) \<Rightarrow>
                           if \<not> cancelledRef w8 then
                             (Fulfilled (), w8\<lparr>status := ''Upload completed successfully!''\<rparr>)
                           else (Fulfilled (), w8)))))"
proof -
  have s: "press c (x\<lparr>trace := t\<rparr>) = x\<lparr>trace := t\<rparr>" if "videoUid x = None" for c x t
    using that by (simp add: press_cases)
  have r [simp]: "videoUid (page_reset w) = None" "\<not> cancelledRef (page_reset w)"
    "trace (page_reset w) = trace w"
    by (simp_all add: page_reset_def)
  note nc = page_started_def
  show ?thesis
  proof (cases "start_result (start_reply io)")
    case (Inl e)
    then show ?thesis
      unfolding handleUpload_try_def chunkFile_chunks_of
      by (simp add: startUpload_def Let_def s nc)
  next
    case (Inr sr)
    obtain r4 w4 where L: "loop_run io f sr w = (r4, w4)" by fastforce
    note L' = L [unfolded loop_run_def page_ready_def]
    show ?thesis
    proof (cases r4)
      case (Inl e)
      then show ?thesis
        using Inr L L' unfolding handleUpload_try_def chunkFile_chunks_of
        by (simp add: startUpload_def Let_def s nc)
    next
      case cps: (Inr completeParts)
      show ?thesis
      proof (cases "cancelledRef w4")
        case True
        then show ?thesis
          using Inr cps L L' unfolding handleUpload_try_def chunkFile_chunks_of
          by (simp add: startUpload_def Let_def s nc)
      next
        case nc4: False
        show ?thesis
        proof (cases "complete_result (complete_reply io)")
          case (Inl e)
          then show ?thesis
            using Inr cps L L' nc4 unfolding handleUpload_try_def chunkFile_chunks_of
            by (simp add: startUpload_def completeUpload_def Let_def s nc page_completing_def)
        next
          case u: (Inr u)
          obtain r8 w8 where R: "poll_run io sr (page_completing io sr completeParts w4) = (r8, w8)"
            by fastforce
          note R' = R [unfolded poll_run_def page_completing_def]
          show ?thesis
            using Inr cps L L' nc4 u R R' unfolding handleUpload_try_def chunkFile_chunks_of
            by (cases r8) (simp_all add: startUpload_def completeUpload_def Let_def s nc page_completing_def)
        qed
      qed
    qed
  qed
qed


lemma handleUpload_eq:
  "file' w = Some f \<Longrightarrow>
   handleUpload io w =
     (case handleUpload_try io f (page_reset w) of
        (Pending, w1) \<Rightarrow> w1
      | (Fulfilled u, w1) \<Rightarrow> w1\<lparr>uploading := False\<rparr>
      | (Rejected err, w1) \<Rightarrow> caught err w1)"
  by (simp add: handleUpload_def page_reset_def caught_def Let_def
      split: prod.splits promise.splits)

lemma handleUpload_cases
  [consumes 1, case_names start_failed upload_failed cancelled complete_failed poll_failed polling settled]:
  assumes "file' w = Some f"
    and "\<And>e. start_result (start_reply io) = Inl e
      \<Longrightarrow> handleUpload io w = caught e (page_started io f w) \<Longrightarrow> Q"
    and "\<And>sr e w4. start_result (start_reply io) = Inr sr \<Longrightarrow> loop_run io f sr w = (Inl e, w4)
      \<Longrightarrow> handleUpload io w = caught e w4 \<Longrightarrow> Q"
    and "\<And>sr cps w4. start_result (start_reply io) = Inr sr \<Longrightarrow> loop_run io f sr w = (Inr cps, w4)
      \<Longrightarrow> cancelledRef w4
      \<Longrightarrow> handleUpload io w = w4\<lparr>status := ''Upload cancelled'', uploading := False\<rparr> \<Longrightarrow> Q"
    and "\<And>sr cps w4 e. start_result (start_reply io) = Inr sr \<Longrightarrow> loop_run io f sr w = (Inr cps, w4)
      \<Longrightarrow> \<not> cancelledRef w4 \<Longrightarrow> complete_result (complete_reply io) = Inl e
      \<Longrightarrow> handleUpload io w = caught e (page_completing io sr cps w4) \<Longrightarrow> Q"
    and "\<And>sr cps w4 e w8. start_result (start_reply io) = Inr sr \<Longrightarrow> loop_run io f sr w = (Inr cps, w4)
      \<Longrightarrow> \<not> cancelledRef w4 \<Longrightarrow> complete_result (complete_reply io) = Inr ()
      \<Longrightarrow> poll_run io sr (page_completing io sr cps w4) = (Rejected e, w8)
      \<Longrightarrow> handleUpload io w = caught e w8 \<Longrightarrow> Q"
    and "\<And>sr cps w4 w8. start_result (start_reply io) = Inr sr \<Longrightarrow> loop_run io f sr w = (Inr cps, w4)
      \<Longrightarrow> \<not> cancelledRef w4 \<Longrightarrow> complete_result (complete_reply io) = Inr ()
      \<Longrightarrow> poll_run io sr (page_completing io sr cps w4) = (Pending, w8)
      \<Longrightarrow> handleUpload io w = w8 \<Longrightarrow> Q"
    and "\<And>sr cps w4 w8. start_result (start_reply io) = Inr sr \<Longrightarrow> loop_run io f sr w = (Inr cps, w4)
      \<Longrightarrow> \<not> cancelledRef w4 \<Longrightarrow> complete_result (complete_reply io) = Inr ()
      \<Longrightarrow> poll_run io sr (page_completing io sr cps w4) = (Fulfilled (), w8)
      \<Longrightarrow> handleUpload io w = settled w8 \<Longrightarrow> Q"
  shows Q
proof (cases "start_result (start_reply io)")
  case (Inl e)
  have "handleUpload io w = caught e (page_started io f w)"
    by (simp add: handleUpload_eq [OF assms(1)] handleUpload_try_eq Inl)
  with Inl show ?thesis by (rule assms(2))
next
  case (Inr sr)
  obtain r4 w4 where L: "loop_run io f sr w = (r4, w4)" by fastforce
  show ?thesis
  proof (cases r4)
    case (Inl e)
    have "handleUpload io w = caught e w4"
      by (simp add: handleUpload_eq [OF assms(1)] handleUpload_try_eq Inr L Inl)
    with Inr L [unfolded Inl] show ?thesis by (rule assms(3))
  next
    case cps: (Inr cps)
    note L' = L [unfolded cps]
    show ?thesis
    proof (cases "cancelledRef w4")
      case True
      have "handleUpload io w = w4\<lparr>status := ''Upload cancelled'', uploading := False\<rparr>"
        by (simp add: handleUpload_eq [OF assms(1)] handleUpload_try_eq Inr L' True)
      with Inr L' True show ?thesis by (rule assms(4))
    next
      case nc: False
      show ?thesis
      proof (cases "complete_result (complete_reply io)")
        case (Inl e)
        have "handleUpload io w = caught e (page_completing io sr cps w4)"
          by (simp add: handleUpload_eq [OF assms(1)] handleUpload_try_eq Inr L' nc Inl)
        with Inr L' nc Inl show ?thesis by (rule assms(5))
      next
        case u: (Inr u)
        then have u': "complete_result (complete_reply io) = Inr ()" by simp
        obtain r8 w8 where R: "poll_run io sr (page_completing io sr cps w4) = (r8, w8)"
          by fastforce
        show ?thesis
        proof (cases r8)
          case (Fulfilled x)
          have "handleUpload io w = settled w8"
            by (simp add: handleUpload_eq [OF assms(1)] handleUpload_try_eq Inr L' nc u R Fulfilled
                settled_def)
          with Inr L' nc u' R [unfolded Fulfilled] show ?thesis by (intro assms(8)) simp_all
        next
          case (Rejected e)
          have "handleUpload io w = caught e w8"
            by (simp add: handleUpload_eq [OF assms(1)] handleUpload_try_eq Inr L' nc u R Rejected)
          with Inr L' nc u' R [unfolded Rejected] show ?thesis by (rule assms(6))
        next
          case Pending
          have "handleUpload io w = w8"
            by (simp add: handleUpload_eq [OF assms(1)] handleUpload_try_eq Inr L' nc u R Pending)
          with Inr L' nc u' R [unfolded Pending] show ?thesis by (rule assms(7))
        qed
      qed
    qed
  qed
qed

section \<open>Coordinator: what every stage preserves\<close>

lemma loop_run_invariant:
  assumes press: "\<And>c w. P w \<Longrightarrow> P (press c w)"
    and log: "\<And>w j. P w \<Longrightarrow> j < length (chunks_of f) \<Longrightarrow> j < length (parts sr)
      \<Longrightarrow> P (w\<lparr>trace := trace w @ [PutCall (url (parts sr ! j)) (chunks_of f ! j)]\<rparr>)"
    and status: "\<And>w s. P w \<Longrightarrow> s \<noteq> ''Upload failed'' \<Longrightarrow> P (w\<lparr>status := s\<rparr>)"
    and progress: "\<And>w x. P w \<Longrightarrow> P (w\<lparr>progress := x\<rparr>)"
    and start: "P (page_ready io f sr w)"
  shows "P (snd (loop_run io f sr w))"
  unfolding loop_run_def
proof (rule upload_loop_invariant [of P, OF press _ status progress start])
  fix w' j
  assume "P w'" "j < length (chunks_of f)" "j < length (parts sr)"
  then show "P (w'\<lparr>trace := trace w' @ [PutCall (url (parts sr ! j)) (chunks_of f ! j)]\<rparr>)"
    by (rule log)
qed

lemma page_completing_invariant:
  assumes press: "\<And>c w. P w \<Longrightarrow> P (press c w)"
    and log: "\<And>w. P w \<Longrightarrow> P (w\<lparr>trace := trace w @ [CompleteCall (video sr) (sort_key PartNumber cps)]\<rparr>)"
    and status: "\<And>w s. P w \<Longrightarrow> s \<noteq> ''Upload failed'' \<Longrightarrow> P (w\<lparr>status := s\<rparr>)"
    and progress: "\<And>w x. P w \<Longrightarrow> P (w\<lparr>progress := x\<rparr>)"
    and start: "P w"
  shows "P (page_completing io sr cps w)"
proof -
  have "P (w\<lparr>status := ''Completing upload...''\<rparr>)" by (rule status [OF start]) simp
  then have "P (w\<lparr>status := ''Completing upload...'', progress := 90\<rparr>)" by (rule progress)
  then have "P (w\<lparr>status := ''Completing upload...'', progress := 90,
      trace := trace (w\<lparr>status := ''Completing upload...'', progress := 90\<rparr>)
        @ [CompleteCall (video sr) (sort_key PartNumber cps)]\<rparr>)"
    by (rule log)
  then have "P (press (click_complete io) (w\<lparr>status := ''Completing upload...'', progress := 90,
      trace := trace (w\<lparr>status := ''Completing upload...'', progress := 90\<rparr>)
        @ [CompleteCall (video sr) (sort_key PartNumber cps)]\<rparr>))"
    by (rule press)
  then show ?thesis by (simp add: page_completing_def)
qed

lemma poll_run_invariant:
  assumes press: "\<And>c w. P w \<Longrightarrow> P (press c w)"
    and log: "\<And>w e. P w \<Longrightarrow> e = StatusCall (video sr) \<or> e = SetTimeout 5000 \<or> e = SetTimeout 3000
      \<Longrightarrow> P (w\<lparr>trace := trace w @ [e]\<rparr>)"
    and status: "\<And>w s. P w \<Longrightarrow> s \<noteq> ''Upload failed'' \<Longrightarrow> P (w\<lparr>status := s\<rparr>)"
    and progress: "\<And>w x. P w \<Longrightarrow> P (w\<lparr>progress := x\<rparr>)"
    and start: "P w"
  shows "P (snd (poll_run io sr w))"
proof -
  have "P (w\<lparr>progress := 99\<rparr>)" by (rule progress [OF start])
  then have "P (w\<lparr>progress := 99, status := ''Waiting for processing...''\<rparr>)"
    by (rule status) simp
  then have "P (w\<lparr>progress := 99, status := ''Waiting for processing...'',
      trace := trace (w\<lparr>progress := 99, status := ''Waiting for processing...''\<rparr>) @ [SetTimeout 3000]\<rparr>)"
    by (rule log) simp
  then have "P (press (click_timer io) (w\<lparr>progress := 99, status := ''Waiting for processing...'',
      trace := trace (w\<lparr>progress := 99, status := ''Waiting for processing...''\<rparr>) @ [SetTimeout 3000]\<rparr>))"
    by (rule press)
  then have "P (snd (poll (video sr) (poll_io io) (press (click_timer io)
      (w\<lparr>progress := 99, status := ''Waiting for processing...'',
      trace := trace (w\<lparr>progress := 99, status := ''Waiting for processing...''\<rparr>) @ [SetTimeout 3000]\<rparr>))))"
    apply (rule poll_invariant [where P = P and uid = "video sr", rotated -1])
       apply (erule press)
      apply (erule log)
      apply blast
     apply (erule status)
     apply assumption
    apply (erule progress)
    done
  then show ?thesis by (simp add: poll_run_def pollStatus_def)
qed

lemma running_press: "running uid w \<Longrightarrow> running uid (press c w)"
  by (simp add: running_def press_cases)

lemma running_log: "running uid w \<Longrightarrow> running uid (w\<lparr>trace := t\<rparr>)"
  by (simp add: running_def)

lemma running_status: "running uid w \<Longrightarrow> s \<noteq> ''Upload failed'' \<Longrightarrow> running uid (w\<lparr>status := s\<rparr>)"
  by (simp add: running_def)

lemma running_progress: "running uid w \<Longrightarrow> running uid (w\<lparr>progress := x\<rparr>)"
  by (simp add: running_def)

lemma running_ready: "running (video sr) (page_ready io f sr w)"
  by (simp add: running_def page_ready_def page_started_def page_reset_def)

lemma running_loop: "running (video sr) (snd (loop_run io f sr w))"
  by (rule loop_run_invariant)
    (simp_all add: running_press running_log running_status running_progress running_ready)

lemma running_completing: "running (video sr) w \<Longrightarrow> running (video sr) (page_completing io sr cps w)"
  by (rule page_completing_invariant)
    (simp_all add: running_press running_log running_status running_progress)

lemma running_poll: "running (video sr) w \<Longrightarrow> running (video sr) (snd (poll_run io sr w))"
  by (rule poll_run_invariant)
    (simp_all add: running_press running_log running_status running_progress)

lemma caught_cancelled:
  "cancelledRef (caught e w) \<longleftrightarrow> cancelledRef w"
  "cancelledRef w \<Longrightarrow> caught e w = w\<lparr>uploading := False\<rparr>"
  by (simp_all add: caught_def)

lemma settled_cancelled:
  "cancelledRef (settled w) \<longleftrightarrow> cancelledRef w"
  "cancelledRef w \<Longrightarrow> settled w = w\<lparr>uploading := False\<rparr>"
  by (simp_all add: settled_def)

text \<open>
  C7. When a run of \<open>handleUpload\<close> on a page with a file ends with the cancellation flag
  set, whatever failed after the press was not reported: the error output is still the
  empty string the run set at its start, the status is not \<open>Upload failed\<close>, and the
  page shows as cancelled.
\<close>

theorem cancellation_suppresses_errors:
  assumes "file' w = Some f" and "cancelledRef (handleUpload io w)"
  shows "error (handleUpload io w) = [] \<and> status (handleUpload io w) \<noteq> ''Upload failed''
    \<and> cancelled (handleUpload io w)"
  using assms(1)
proof (cases rule: handleUpload_cases [where io = io])
  case (start_failed e)
  then show ?thesis
    using assms(2) by (simp add: caught_cancelled page_started_def page_reset_def)
next
  case (upload_failed sr e w4)
  have "running (video sr) w4" using running_loop [of sr io f w] upload_failed(2) by simp
  then show ?thesis
    using assms(2) upload_failed(3) by (simp add: caught_cancelled running_def)
next
  case (cancelled sr cps w4)
  have "running (video sr) w4" using running_loop [of sr io f w] cancelled(2) by simp
  then show ?thesis
    using cancelled(3,4) by (simp add: running_def)
next
  case (complete_failed sr cps w4 e)
  have "running (video sr) w4" using running_loop [of sr io f w] complete_failed(2) by simp
  then have "running (video sr) (page_completing io sr cps w4)" by (rule running_completing)
  then show ?thesis
    using assms(2) complete_failed(5) by (simp add: caught_cancelled running_def)
next
  case (poll_failed sr cps w4 e w8)
  have "running (video sr) w4" using running_loop [of sr io f w] poll_failed(2) by simp
  then have "running (video sr) (page_completing io sr cps w4)" by (rule running_completing)
  then have "running (video sr) w8" using running_poll [of sr _ io] poll_failed(5) by fastforce
  then show ?thesis
    using assms(2) poll_failed(6) by (simp add: caught_cancelled running_def)
next
  case (polling sr cps w4 w8)
  have "running (video sr) w4" using running_loop [of sr io f w] polling(2) by simp
  then have "running (video sr) (page_completing io sr cps w4)" by (rule running_completing)
  then have "running (video sr) w8" using running_poll [of sr _ io] polling(5) by fastforce
  then show ?thesis
    using assms(2) polling(6) by (simp add: running_def)
next
  case (settled sr cps w4 w8)
  have "running (video sr) w4" using running_loop [of sr io f w] settled(2) by simp
  then have "running (video sr) (page_completing io sr cps w4)" by (rule running_completing)
  then have "running (video sr) w8" using running_poll [of sr _ io] settled(5) by fastforce
  then show ?thesis
    using assms(2) settled(6) by (simp add: settled_cancelled running_def)
qed


lemma chunks_of_small_file: "chunks_of small_file = [''abc'']"
  by (simp add: chunks_of_def small_file_def chunk_count_def chunk_at_def slice_def CHUNK_SIZE_def)

lemma run_cancel_failing:
  "handleUpload io_cancel_failing (selected small_file)
     = (selected small_file)\<lparr>uploading := False, progress := 10, status := ''Cancelling upload...'',
          videoUid := Some ''v1'', cancelled := True, cancelledRef := True,
          trace := [StartCall ''upload-1'' ''clip.mp4'' 1 (Some ''video/mp4''),
                    PutCall ''https://store/1'' ''abc'', CancelCall ''v1'',
                    PutCall ''https://store/1'' ''abc'', PutCall ''https://store/1'' ''abc'']\<rparr>"
proof -
  have f: "file' (selected small_file) = Some small_file" by (simp add: selected_def)
  have sr: "start_result (start_reply io_cancel_failing) = Inr \<lparr>parts = [part1], video = ''v1''\<rparr>"
    by (simp add: io_cancel_failing_def start_ok_def start_result_def)
  have att: "put_attempt part1 (put_reply (put_io io_cancel_failing i r))
      = Inl (ChunkUploadError 1 503 ''Service Unavailable'' ''busy'')" for i r
    by (simp add: io_cancel_failing_def put_attempt_def put_503_def part1_def)
  show ?thesis
    apply (simp add: handleUpload_eq [OF f] handleUpload_try_eq sr loop_run_def chunks_of_small_file)
    apply (simp add: upload_loop.simps nth_opt_def uploadChunkToS3.simps att MAX_RETRIES_def Let_def)
    apply (simp add: caught_def page_ready_def page_started_def page_reset_def press_cases
        io_cancel_failing_def selected_def idle_page_def part1_def small_file_def
        chunks_of_small_file [unfolded small_file_def])
    done
qed


theorem cancellation_suppresses_errors_witness:
  "file' (selected small_file) = Some small_file
   \<and> upload_outcome part1 (put_io io_cancel_failing 0)
       = Inl (ChunkUploadError 1 503 ''Service Unavailable'' ''busy'')
   \<and> cancelledRef (handleUpload io_cancel_failing (selected small_file))
   \<and> error (handleUpload io_cancel_failing (selected small_file)) = []
   \<and> status (handleUpload io_cancel_failing (selected small_file)) \<noteq> ''Upload failed''
   \<and> cancelled (handleUpload io_cancel_failing (selected small_file))"
proof -
  have f: "file' (selected small_file) = Some small_file" by (simp add: selected_def)
  have c: "cancelledRef (handleUpload io_cancel_failing (selected small_file))"
    by (simp add: run_cancel_failing)
  have o: "upload_outcome part1 (put_io io_cancel_failing 0)
       = Inl (ChunkUploadError 1 503 ''Service Unavailable'' ''busy'')"
    by (simp add: upload_outcome_def io_cancel_failing_def put_attempt_def put_503_def part1_def)
  show ?thesis
    using cancellation_suppresses_errors [OF f c] f c o by simp
qed

section \<open>Cancel before the start response\<close>

lemma click_start_stages [simp]:
  "page_started (io\<lparr>click_start := c\<rparr>) f w = page_started io f w"
  "loop_run (io\<lparr>click_start := c\<rparr>) f sr w = loop_run io f sr w"
  "page_completing (io\<lparr>click_start := c\<rparr>) sr cps w4 = page_completing io sr cps w4"
  "poll_run (io\<lparr>click_start := c\<rparr>) sr w6 = poll_run io sr w6"
  by (simp_all add: page_started_def loop_run_def page_ready_def page_completing_def poll_run_def)

lemma handleUpload_click_start: "handleUpload (io\<lparr>click_start := c\<rparr>) w = handleUpload io w"
proof (cases "file' w")
  case None
  then show ?thesis by (simp add: handleUpload_def)
next
  case (Some f)
  have "handleUpload_try (io\<lparr>click_start := c\<rparr>) f (page_reset w) = handleUpload_try io f (page_reset w)"
    unfolding handleUpload_try_eq
    by (simp cong: sum.case_cong promise.case_cong if_cong)
  then show ?thesis by (simp add: handleUpload_eq [OF Some])
qed

text \<open>
  C10. \<open>handleCancel\<close> leaves the page as it is (no flag set, no request sent) when
  \<open>videoUid\<close> is \<^verbatim>\<open>null\<close> or empty or when no upload is in progress. A press while the
  start request is in flight therefore changes nothing in a run; and a run whose start
  request fails ends with the flag unset, having sent the start request only.
\<close>

theorem cancel_before_start_is_noop:
  "(videoUid w = None \<or> videoUid w = Some [] \<or> \<not> uploading w \<longrightarrow> handleCancel reply w = w)
   \<and> handleUpload (io\<lparr>click_start := c\<rparr>) w = handleUpload io w
   \<and> (file' w = Some f \<and> start_result (start_reply io) = Inl e
      \<longrightarrow> \<not> cancelledRef (handleUpload io w) \<and> \<not> cancelled (handleUpload io w)
          \<and> trace (handleUpload io w)
              = trace w @ [StartCall (uploadId io) (file_name f) (length (chunks_of f))
                   (if file_type f \<noteq> [] then Some (file_type f) else None)])"
proof -
  have a: "videoUid w = None \<or> videoUid w = Some [] \<or> \<not> uploading w \<longrightarrow> handleCancel reply w = w"
    by (auto simp: handleCancel_cases)
  have b: "\<not> cancelledRef (handleUpload io w) \<and> \<not> cancelled (handleUpload io w)
          \<and> trace (handleUpload io w)
              = trace w @ [StartCall (uploadId io) (file_name f) (length (chunks_of f))
                   (if file_type f \<noteq> [] then Some (file_type f) else None)]"
    if "file' w = Some f" "start_result (start_reply io) = Inl e"
    using that
    by (simp add: handleUpload_eq handleUpload_try_eq) (simp add: caught_def page_started_def page_reset_def)
  show ?thesis using a b handleUpload_click_start by blast
qed

theorem cancel_before_start_is_noop_witness:
  "videoUid (idle_page\<lparr>uploading := True\<rparr>) = None
   \<and> handleCancel plain_ok (idle_page\<lparr>uploading := True\<rparr>) = idle_page\<lparr>uploading := True\<rparr>
   \<and> file' (selected small_file) = Some small_file
   \<and> start_result (start_reply io_start_refused) = Inl (PlatformError ''Failed to fetch'')
   \<and> click_start io_start_refused = Some plain_ok
   \<and> \<not> cancelledRef (handleUpload io_start_refused (selected small_file))
   \<and> trace (handleUpload io_start_refused (selected small_file))
       = [StartCall ''upload-1'' ''clip.mp4'' 1 (Some ''video/mp4'')]"
proof -
  have v: "videoUid (idle_page\<lparr>uploading := True\<rparr>) = None" by (simp add: idle_page_def)
  have f: "file' (selected small_file) = Some small_file" by (simp add: selected_def)
  have s: "start_result (start_reply io_start_refused) = Inl (PlatformError ''Failed to fetch'')"
    by (simp add: io_start_refused_def start_result_def)
  have c: "click_start io_start_refused = Some plain_ok" by (simp add: io_start_refused_def)
  have t: "trace (selected small_file) = []" "uploadId io_start_refused = ''upload-1''"
    "file_name small_file = ''clip.mp4''" "file_type small_file = ''video/mp4''"
    by (simp_all add: selected_def idle_page_def io_start_refused_def small_file_def)
  note inst = cancel_before_start_is_noop [where w = "selected small_file" and io = io_start_refused
      and f = small_file and e = "PlatformError ''Failed to fetch''"]
  have g1: "handleCancel plain_ok (idle_page\<lparr>uploading := True\<rparr>) = idle_page\<lparr>uploading := True\<rparr>"
    using cancel_before_start_is_noop [where w = "idle_page\<lparr>uploading := True\<rparr>" and reply = plain_ok] v
    by blast
  have g2: "\<not> cancelledRef (handleUpload io_start_refused (selected small_file))
      \<and> trace (handleUpload io_start_refused (selected small_file))
       = [StartCall ''upload-1'' ''clip.mp4'' 1 (Some ''video/mp4'')]"
    using inst f s by (simp add: t chunks_of_small_file)
  show ?thesis using v g1 f s c g2 by blast
qed

section \<open>Coordinator: the log of a run\<close>

lemma extends_refl: "extends (trace w) R w"
  by (simp add: extends_def)

lemma extends_press: "(\<And>e. is_cancel e \<Longrightarrow> R e) \<Longrightarrow> extends t R w \<Longrightarrow> extends t R (press c w)"
  by (auto simp: extends_def press_cases)

lemma extends_log: "R e \<Longrightarrow> extends t R w \<Longrightarrow> extends t R (w\<lparr>trace := trace w @ [e]\<rparr>)"
  by (auto simp: extends_def)

lemma extends_status: "extends t R w \<Longrightarrow> extends t R (w\<lparr>status := s\<rparr>)"
  by (simp add: extends_def)

lemma extends_progress: "extends t R w \<Longrightarrow> extends t R (w\<lparr>progress := x\<rparr>)"
  by (simp add: extends_def)

lemma loop_run_extends:
  "extends (trace (page_ready io f sr w)) (loop_event (chunks_of f) (parts sr)) (snd (loop_run io f sr w))"
  (is "extends ?t ?R _")
proof (rule loop_run_invariant)
  show "extends ?t ?R (press c w')" if "extends ?t ?R w'" for c w'
    using that by (rule extends_press [rotated]) (simp add: loop_event_def)
  show "extends ?t ?R (w'\<lparr>trace := trace w' @ [PutCall (url (parts sr ! j)) (chunks_of f ! j)]\<rparr>)"
    if "extends ?t ?R w'" "j < length (chunks_of f)" "j < length (parts sr)" for w' j
    using that by (intro extends_log) (auto simp: loop_event_def)
  show "extends ?t ?R (w'\<lparr>status := s\<rparr>)" if "extends ?t ?R w'" for w' s
    using that by (rule extends_status)
  show "extends ?t ?R (w'\<lparr>progress := x\<rparr>)" if "extends ?t ?R w'" for w' x
    using that by (rule extends_progress)
  show "extends ?t ?R (page_ready io f sr w)" by (rule extends_refl)
qed

lemma page_completing_extends:
  "extends (trace w @ [CompleteCall (video sr) (sort_key PartNumber cps)]) tail_event
     (page_completing io sr cps w)"
  by (auto simp: page_completing_def extends_def press_cases tail_event_def)

lemma poll_run_extends:
  assumes "extends t tail_event w"
  shows "extends t tail_event (snd (poll_run io sr w))"
proof (rule poll_run_invariant)
  show "extends t tail_event (press c w')" if "extends t tail_event w'" for c w'
    using that by (rule extends_press [rotated]) (simp add: tail_event_def)
  show "extends t tail_event (w'\<lparr>trace := trace w' @ [e]\<rparr>)"
    if "extends t tail_event w'" "e = StatusCall (video sr) \<or> e = SetTimeout 5000 \<or> e = SetTimeout 3000"
    for w' e
    using that by (intro extends_log) (auto simp: tail_event_def)
  show "extends t tail_event (w'\<lparr>status := s\<rparr>)" if "extends t tail_event w'" for w' s
    using that by (rule extends_status)
  show "extends t tail_event (w'\<lparr>progress := x\<rparr>)" if "extends t tail_event w'" for w' x
    using that by (rule extends_progress)
  show "extends t tail_event w" by (rule assms)
qed

lemma caught_trace [simp]: "trace (caught e w) = trace w"
  by (simp add: caught_def)

lemma settled_trace [simp]: "trace (settled w) = trace w"
  by (simp add: settled_def)

lemma handleUpload_issued [consumes 1, case_names no_session uploading completing]:
  assumes "file' w = Some f"
    and "\<And>e. start_result (start_reply io) = Inl e
      \<Longrightarrow> issued w (handleUpload io w)
          = [StartCall (uploadId io) (file_name f) (length (chunks_of f))
               (if file_type f \<noteq> [] then Some (file_type f) else None)] \<Longrightarrow> Q"
    and "\<And>sr r4 w4 les. start_result (start_reply io) = Inr sr \<Longrightarrow> loop_run io f sr w = (r4, w4)
      \<Longrightarrow> isl r4 \<or> cancelledRef w4
      \<Longrightarrow> \<forall>e\<in>set les. loop_event (chunks_of f) (parts sr) e
      \<Longrightarrow> issued w w4
          = StartCall (uploadId io) (file_name f) (length (chunks_of f))
              (if file_type f \<noteq> [] then Some (file_type f) else None) # les
      \<Longrightarrow> issued w (handleUpload io w) = issued w w4 \<Longrightarrow> Q"
    and "\<And>sr cps w4 les tes. start_result (start_reply io) = Inr sr \<Longrightarrow> loop_run io f sr w = (Inr cps, w4)
      \<Longrightarrow> \<not> cancelledRef w4
      \<Longrightarrow> \<forall>e\<in>set les. loop_event (chunks_of f) (parts sr) e
      \<Longrightarrow> issued w w4
          = StartCall (uploadId io) (file_name f) (length (chunks_of f))
              (if file_type f \<noteq> [] then Some (file_type f) else None) # les
      \<Longrightarrow> \<forall>e\<in>set tes. tail_event e
      \<Longrightarrow> issued w (handleUpload io w)
          = issued w w4 @ CompleteCall (video sr) (sort_key PartNumber cps) # tes \<Longrightarrow> Q"
  shows Q
proof -
  let ?start = "StartCall (uploadId io) (file_name f) (length (chunks_of f))
              (if file_type f \<noteq> [] then Some (file_type f) else None)"
  have loop: "\<exists>les. (\<forall>e\<in>set les. loop_event (chunks_of f) (parts sr) e) \<and> trace w4 = trace w @ ?start # les"
    if "loop_run io f sr w = (r4, w4)" for sr r4 w4
    using loop_run_extends [of io f sr w] that by (auto simp: extends_def)
  have tail: "\<exists>tes. (\<forall>e\<in>set tes. tail_event e)
      \<and> trace w8 = trace w4 @ CompleteCall (video sr) (sort_key PartNumber cps) # tes"
    if "poll_run io sr (page_completing io sr cps w4) = (r8, w8)" for sr cps w4 r8 w8
    using poll_run_extends [OF page_completing_extends [where w = w4 and sr = sr and cps = cps and io = io],
        where io = io and sr = sr] that
    by (auto simp: extends_def)
  have tail0: "\<exists>tes. (\<forall>e\<in>set tes. tail_event e)
      \<and> trace (page_completing io sr cps w4) = trace w4 @ CompleteCall (video sr) (sort_key PartNumber cps) # tes"
    for sr cps w4
    using page_completing_extends [where w = w4 and sr = sr and cps = cps and io = io]
    by (auto simp: extends_def)
  from assms(1) show ?thesis
  proof (cases rule: handleUpload_cases [where io = io])
    case (start_failed e)
    then show ?thesis
      by (intro assms(2) [of e]) (simp_all add: issued_def page_started_def page_reset_def)
  next
    case (upload_failed sr e w4)
    obtain les where "\<forall>e\<in>set les. loop_event (chunks_of f) (parts sr) e" "trace w4 = trace w @ ?start # les"
      using loop [OF upload_failed(2)] by blast
    with upload_failed show ?thesis
      by (intro assms(3) [of sr "Inl e" w4 les]) (simp_all add: issued_def)
  next
    case (cancelled sr cps w4)
    obtain les where "\<forall>e\<in>set les. loop_event (chunks_of f) (parts sr) e" "trace w4 = trace w @ ?start # les"
      using loop [OF cancelled(2)] by blast
    with cancelled show ?thesis
      by (intro assms(3) [of sr "Inr cps" w4 les]) (simp_all add: issued_def)
  next
    case (complete_failed sr cps w4 e)
    obtain les where l: "\<forall>e\<in>set les. loop_event (chunks_of f) (parts sr) e" "trace w4 = trace w @ ?start # les"
      using loop [OF complete_failed(2)] by blast
    obtain tes where "\<forall>e\<in>set tes. tail_event e"
      "trace (page_completing io sr cps w4) = trace w4 @ CompleteCall (video sr) (sort_key PartNumber cps) # tes"
      using tail0 by blast
    with complete_failed l show ?thesis
      by (intro assms(4) [of sr cps w4 les tes]) (simp_all add: issued_def)
  next
    case (poll_failed sr cps w4 e w8)
    obtain les where l: "\<forall>e\<in>set les. loop_event (chunks_of f) (parts sr) e" "trace w4 = trace w @ ?start # les"
      using loop [OF poll_failed(2)] by blast
    obtain tes where "\<forall>e\<in>set tes. tail_event e"
      "trace w8 = trace w4 @ CompleteCall (video sr) (sort_key PartNumber cps) # tes"
      using tail [OF poll_failed(5)] by blast
    with poll_failed l show ?thesis
      by (intro assms(4) [of sr cps w4 les tes]) (simp_all add: issued_def)
  next
    case (polling sr cps w4 w8)
    obtain les where l: "\<forall>e\<in>set les. loop_event (chunks_of f) (parts sr) e" "trace w4 = trace w @ ?start # les"
      using loop [OF polling(2)] by blast
    obtain tes where "\<forall>e\<in>set tes. tail_event e"
      "trace w8 = trace w4 @ CompleteCall (video sr) (sort_key PartNumber cps) # tes"
      using tail [OF polling(5)] by blast
    with polling l show ?thesis
      by (intro assms(4) [of sr cps w4 les tes]) (simp_all add: issued_def)
  next
    case (settled sr cps w4 w8)
    obtain les where l: "\<forall>e\<in>set les. loop_event (chunks_of f) (parts sr) e" "trace w4 = trace w @ ?start # les"
      using loop [OF settled(2)] by blast
    obtain tes where "\<forall>e\<in>set tes. tail_event e"
      "trace w8 = trace w4 @ CompleteCall (video sr) (sort_key PartNumber cps) # tes"
      using tail [OF settled(5)] by blast
    with settled l show ?thesis
      by (intro assms(4) [of sr cps w4 les tes]) (simp_all add: issued_def)
  qed
qed

section \<open>Empty file\<close>

lemma chunks_of_empty: "file_bytes f = [] \<Longrightarrow> chunks_of f = []"
  by (simp add: chunks_of_def chunk_count_def CHUNK_SIZE_def)

lemma loop_run_empty: "chunks_of f = [] \<Longrightarrow> loop_run io f sr w = (Inr [], page_ready io f sr w)"
  by (simp add: loop_run_def upload_loop_done)

lemma tail_event_not_put: "tail_event e \<Longrightarrow> \<not> is_put e"
  by (cases e) (auto simp: tail_event_def)

text \<open>
  C5 (as amended). For a file of size 0 the chunker yields no chunk, and the coordinator
  has no check for it: the first event of the run is the start request with
  \<open>total_parts = 0\<close>; no \<^verbatim>\<open>PUT\<close> follows; and when the start request succeeds, the
  complete request is sent with an empty part list.
\<close>

theorem empty_file_starts_session:
  assumes "file' w = Some f" and "file_bytes f = []"
  shows "chunkFile f = Some []
    \<and> (\<exists>es. issued w (handleUpload io w)
             = StartCall (uploadId io) (file_name f) 0
                 (if file_type f \<noteq> [] then Some (file_type f) else None) # es
           \<and> (\<forall>e\<in>set es. \<not> is_put e))
    \<and> (\<forall>sr. start_result (start_reply io) = Inr sr
          \<longrightarrow> CompleteCall (video sr) [] \<in> set (issued w (handleUpload io w)))"
proof -
  have c: "chunks_of f = []" using assms(2) by (rule chunks_of_empty)
  have a: "chunkFile f = Some []" using assms(2) by (rule chunkFile_empty)
  from assms(1) have "(\<exists>es. issued w (handleUpload io w)
             = StartCall (uploadId io) (file_name f) 0
                 (if file_type f \<noteq> [] then Some (file_type f) else None) # es
           \<and> (\<forall>e\<in>set es. \<not> is_put e))
    \<and> (\<forall>sr. start_result (start_reply io) = Inr sr
          \<longrightarrow> CompleteCall (video sr) [] \<in> set (issued w (handleUpload io w)))"
  proof (cases rule: handleUpload_issued [where io = io])
    case (no_session e)
    then show ?thesis by (simp add: c)
  next
    case (uploading sr r4 w4 les)
    from uploading(2,3) have False by (auto simp: loop_run_empty [OF c])
    then show ?thesis ..
  next
    case (completing sr cps w4 les tes)
    have "w4 = page_ready io f sr w" "cps = []"
      using completing(2) by (simp_all add: loop_run_empty [OF c])
    then have "issued w w4 = [StartCall (uploadId io) (file_name f) 0
        (if file_type f \<noteq> [] then Some (file_type f) else None)]"
      by (simp add: issued_def c)
    then show ?thesis
      using completing(1,6,7) \<open>cps = []\<close> by (auto simp: tail_event_not_put)
  qed
  with a show ?thesis by simp
qed

theorem empty_file_starts_session_witness:
  "file' (selected empty_file) = Some empty_file \<and> file_bytes empty_file = []
   \<and> start_result (start_reply (io_smooth [])) = Inr \<lparr>parts = [], video = ''v1''\<rparr>
   \<and> chunkFile empty_file = Some []
   \<and> hd (issued (selected empty_file) (handleUpload (io_smooth []) (selected empty_file)))
       = StartCall ''upload-1'' ''empty.bin'' 0 None
   \<and> CompleteCall ''v1'' [] \<in> set (issued (selected empty_file) (handleUpload (io_smooth []) (selected empty_file)))"
proof -
  have f: "file' (selected empty_file) = Some empty_file" by (simp add: selected_def)
  have b: "file_bytes empty_file = []" by (simp add: empty_file_def)
  have s: "start_result (start_reply (io_smooth [])) = Inr \<lparr>parts = [], video = ''v1''\<rparr>"
    by (simp add: io_smooth_def start_ok_def start_result_def)
  have v: "uploadId (io_smooth []) = ''upload-1''" "file_name empty_file = ''empty.bin''"
    "file_type empty_file = []"
    by (simp_all add: io_smooth_def empty_file_def)
  note inst = empty_file_starts_session [OF f b, of "io_smooth []"]
  have "CompleteCall (video \<lparr>parts = [], video = ''v1''\<rparr>) []
      \<in> set (issued (selected empty_file) (handleUpload (io_smooth []) (selected empty_file)))"
    using inst s by blast
  then show ?thesis using inst f b s by (auto simp: v)
qed

theorem empty_file_counterexample:
  "file_bytes empty_file = []
   \<and> handleUpload (io_smooth []) (selected empty_file)
       = (selected empty_file)\<lparr>uploading := False, progress := 100,
            status := ''Upload completed successfully!'', error := [],
            videoUid := Some ''v1'',
            trace := [StartCall ''upload-1'' ''empty.bin'' 0 None, CompleteCall ''v1'' [],
                      SetTimeout 3000, StatusCall ''v1'']\<rparr>"
proof -
  have f: "file' (selected empty_file) = Some empty_file" by (simp add: selected_def)
  have b: "file_bytes empty_file = []" by (simp add: empty_file_def)
  have sr: "start_result (start_reply (io_smooth [])) = Inr \<lparr>parts = [], video = ''v1''\<rparr>"
    by (simp add: io_smooth_def start_ok_def start_result_def)
  have cr: "complete_result (complete_reply (io_smooth [])) = Inr ()"
    by (simp add: io_smooth_def plain_ok_def complete_result_def)
  have st: "status_result (poll_reply (round_of (status_reply ''completed'')))
      = Inr \<lparr>us_status = ''completed'', us_video = ''v1''\<rparr>"
    by (simp add: status_result_def round_of_def status_reply_def)
  have "handleUpload (io_smooth []) (selected empty_file)
       = (selected empty_file)\<lparr>uploading := False, progress := 100,
            status := ''Upload completed successfully!'', error := [],
            videoUid := Some ''v1'',
            trace := [StartCall ''upload-1'' ''empty.bin'' 0 None, CompleteCall ''v1'' [],
                      SetTimeout 3000, StatusCall ''v1'']\<rparr>"
    apply (simp add: handleUpload_eq [OF f] handleUpload_try_eq sr cr loop_run_empty [OF chunks_of_empty [OF b]])
    apply (simp add: poll_run_def pollStatus_def page_completing_def io_smooth_def)
    apply (simp add: poll.simps checkStatus_def st Let_def)
    apply (simp add: page_ready_def page_started_def page_reset_def round_of_def
        selected_def idle_page_def empty_file_def chunks_of_empty [OF b, unfolded empty_file_def])
    done
  with b show ?thesis by simp
qed

section \<open>Upload loop: what it records\<close>

lemma upload_loop_trace_mono:
  assumes "x \<in> set (drop m (trace w))"
  shows "x \<in> set (drop m (trace (snd (upload_loop io chunks ps n i acc w))))"
proof (rule upload_loop_invariant [where P = "\<lambda>w. x \<in> set (drop m (trace w))"])
  show "x \<in> set (drop m (trace (press c w')))" if "x \<in> set (drop m (trace w'))" for c w'
    using that by (auto simp: press_cases)
  show "x \<in> set (drop m (trace (w'\<lparr>trace := trace w' @ [PutCall (url (ps ! j)) (chunks ! j)]\<rparr>)))"
    if "x \<in> set (drop m (trace w'))" for w' j
    using that by simp
  show "x \<in> set (drop m (trace (w'\<lparr>status := s\<rparr>)))" if "x \<in> set (drop m (trace w'))" for w' s
    using that by simp
  show "x \<in> set (drop m (trace (w'\<lparr>progress := y\<rparr>)))" if "x \<in> set (drop m (trace w'))" for w' y
    using that by simp
  show "x \<in> set (drop m (trace w))" by (rule assms)
qed

lemma uploaded_extends: "extends (trace w) (\<lambda>e. True) (uploaded io chunks ps n i w)"
proof (rule uploaded_invariant)
  show "extends (trace w) (\<lambda>e. True) (press c w')" if "extends (trace w) (\<lambda>e. True) w'" for c w'
    using that by (rule extends_press [rotated]) simp
  show "extends (trace w) (\<lambda>e. True) (w'\<lparr>trace := trace w' @ [PutCall (url (ps ! i)) (chunks ! i)]\<rparr>)"
    if "extends (trace w) (\<lambda>e. True) w'" for w'
    using that by (intro extends_log) simp
  show "extends (trace w) (\<lambda>e. True) (w'\<lparr>status := s\<rparr>)" if "extends (trace w) (\<lambda>e. True) w'" for w' s
    using that by (rule extends_status)
  show "extends (trace w) (\<lambda>e. True) w" by (rule extends_refl)
qed

lemma uploaded_has_put:
  "PutCall (url (ps ! i)) (chunks ! i) \<in> set (drop (length (trace w)) (trace (uploaded io chunks ps n i w)))"
proof -
  obtain es where es: "trace (uploaded io chunks ps n i w) = trace w @ es"
    using uploaded_extends [of w io chunks ps n i] by (auto simp: extends_def)
  have "filter is_put (trace (uploaded io chunks ps n i w))
      = filter is_put (trace w)
        @ replicate (Suc (final_attempt (ps ! i) (io i) 0 - 0)) (PutCall (url (ps ! i)) (chunks ! i))"
    unfolding uploaded_def uploadChunkToS3_puts by (simp add: announced_def)
  then have "filter is_put es
      = replicate (Suc (final_attempt (ps ! i) (io i) 0 - 0)) (PutCall (url (ps ! i)) (chunks ! i))"
    by (simp add: es)
  then have "PutCall (url (ps ! i)) (chunks ! i) \<in> set (filter is_put es)" by simp
  then show ?thesis by (simp add: es)
qed

lemma uploaded_trace_length: "length (trace w) \<le> length (trace (uploaded io chunks ps n i w))"
  using uploaded_extends [of w io chunks ps n i] by (auto simp: extends_def)

lemma records_Cons:
  assumes "i < length ps" "upload_outcome (ps ! i) (io i) = Inr (ETag p)"
    "PartNumber p = part_number (ps ! i)" "records io ps (Suc i) new"
  shows "records io ps i (p # new)"
  unfolding records_def
proof (intro allI impI)
  fix k
  assume "k < length (p # new)"
  then show "i + k < length ps
      \<and> upload_outcome (ps ! (i + k)) (io (i + k)) = Inr (ETag ((p # new) ! k))
      \<and> PartNumber ((p # new) ! k) = part_number (ps ! (i + k))"
    using assms by (cases k) (auto simp: records_def)
qed

lemma upload_loop_records:
  "i \<le> length chunks \<Longrightarrow> upload_loop io chunks ps n i acc w = (Inr cps, w') \<Longrightarrow>
     \<exists>new. cps = acc @ new \<and> records io ps i new \<and> i + length new \<le> length chunks
       \<and> (\<not> cancelledRef w' \<longrightarrow> i + length new = length chunks)
       \<and> (\<forall>k<length new. PutCall (url (ps ! (i + k))) (chunks ! (i + k))
             \<in> set (drop (length (trace w)) (trace w')))"
proof (induction "length chunks - i" arbitrary: i acc w)
  case 0
  then have "upload_loop io chunks ps n i acc w = (Inr acc, w)"
    by (intro upload_loop_done) simp
  with 0 show ?case by (intro exI [of _ "[]"]) (simp add: records_def)
next
  case (Suc d)
  show ?case
  proof (cases rule: upload_loop_cases [of i chunks io ps n acc w])
    case finished
    then show ?thesis using Suc.hyps(2) by simp
  next
    case stopped
    with Suc.prems show ?thesis by (intro exI [of _ "[]"]) (auto simp: records_def)
  next
    case no_part
    with Suc.prems show ?thesis by simp
  next
    case (failed e)
    with Suc.prems show ?thesis by simp
  next
    case (continue etag)
    let ?p = "\<lparr>ETag = etag, PartNumber = part_number (ps ! i)\<rparr>"
    let ?w = "(uploaded io chunks ps n i w)\<lparr>progress := 10 + (real i + 1) * (80 / real n)\<rparr>"
    have run: "upload_loop io chunks ps n (Suc i) (acc @ [?p]) ?w = (Inr cps, w')"
      using continue(5) Suc.prems(2) by simp
    have d: "d = length chunks - Suc i" using Suc.hyps(2) by simp
    have le: "Suc i \<le> length chunks" using continue(1) by simp
    obtain new where new: "cps = (acc @ [?p]) @ new" "records io ps (Suc i) new"
      "Suc i + length new \<le> length chunks"
      "\<not> cancelledRef w' \<longrightarrow> Suc i + length new = length chunks"
      "\<forall>k<length new. PutCall (url (ps ! (Suc i + k))) (chunks ! (Suc i + k))
          \<in> set (drop (length (trace ?w)) (trace w'))"
      using Suc.hyps(1) [OF d le run] by blast
    have "PutCall (url (ps ! i)) (chunks ! i) \<in> set (drop (length (trace w)) (trace ?w))"
      using uploaded_has_put [of ps i chunks w io n] by simp
    then have here: "PutCall (url (ps ! i)) (chunks ! i) \<in> set (drop (length (trace w)) (trace w'))"
      using upload_loop_trace_mono [of _ "length (trace w)" ?w io chunks ps n "Suc i" "acc @ [?p]"] run
      by fastforce
    have sub: "set (drop (length (trace ?w)) (trace w')) \<subseteq> set (drop (length (trace w)) (trace w'))"
      using uploaded_trace_length [of w io chunks ps n i] by (intro set_drop_subset_set_drop) simp
    have rec: "records io ps i (?p # new)"
      using continue(3,4) new(2) by (intro records_Cons) simp_all
    have puts: "\<forall>k<length (?p # new). PutCall (url (ps ! (i + k))) (chunks ! (i + k))
        \<in> set (drop (length (trace w)) (trace w'))"
    proof (intro allI impI)
      fix k
      assume "k < length (?p # new)"
      then show "PutCall (url (ps ! (i + k))) (chunks ! (i + k)) \<in> set (drop (length (trace w)) (trace w'))"
        using here new(5) sub by (cases k) auto
    qed
    show ?thesis
      using new(1,3,4) rec puts by (intro exI [of _ "?p # new"]) simp
  qed
qed

text \<open>What a complete request of a run carries.\<close>

lemma complete_call_recorded:
  assumes "file' w = Some f" and "CompleteCall uid cps \<in> set (issued w (handleUpload io w))"
  shows "\<exists>sr recorded. start_result (start_reply io) = Inr sr \<and> uid = video sr
     \<and> cps = sort_key PartNumber recorded
     \<and> length recorded = length (chunks_of f)
     \<and> records (put_io io) (parts sr) 0 recorded
     \<and> (\<forall>j<length (chunks_of f).
           PutCall (url (parts sr ! j)) (chunks_of f ! j) \<in> set (issued w (handleUpload io w)))"
  using assms(1)
proof (cases rule: handleUpload_issued [where io = io])
  case (no_session e)
  then show ?thesis using assms(2) by simp
next
  case (uploading sr r4 w4 les)
  then show ?thesis using assms(2) by (auto simp: loop_event_def)
next
  case (completing sr cps' w4 les tes)
  have "CompleteCall uid cps \<notin> set les"
    using completing(4) by (auto simp: loop_event_def)
  moreover have "CompleteCall uid cps \<notin> set tes"
    using completing(6) by (auto simp: tail_event_def)
  ultimately have eq: "uid = video sr" "cps = sort_key PartNumber cps'"
    using assms(2) completing(5,7) by auto
  obtain new where new: "cps' = [] @ new" "records (put_io io) (parts sr) 0 new"
    "\<not> cancelledRef w4 \<longrightarrow> 0 + length new = length (chunks_of f)"
    "\<forall>k<length new. PutCall (url (parts sr ! (0 + k))) (chunks_of f ! (0 + k))
        \<in> set (drop (length (trace (page_ready io f sr w))) (trace w4))"
    using upload_loop_records [OF _ completing(2) [unfolded loop_run_def]] by auto
  have len: "length cps' = length (chunks_of f)" using new(1,3) completing(3) by simp
  have "PutCall (url (parts sr ! j)) (chunks_of f ! j) \<in> set (issued w (handleUpload io w))"
    if "j < length (chunks_of f)" for j
  proof -
    have "PutCall (url (parts sr ! j)) (chunks_of f ! j)
        \<in> set (drop (length (trace (page_ready io f sr w))) (trace w4))"
      using new(1,4) len that by simp
    moreover have "set (drop (length (trace (page_ready io f sr w))) (trace w4))
        \<subseteq> set (drop (length (trace w)) (trace w4))"
      by (intro set_drop_subset_set_drop) simp
    ultimately have "PutCall (url (parts sr ! j)) (chunks_of f ! j) \<in> set (issued w w4)"
      by (auto simp: issued_def)
    then show ?thesis using completing(7) by simp
  qed
  then show ?thesis
    using completing(1) eq new(1,2) len by auto
qed


lemma put_positional:
  assumes "file' w = Some f" and "PutCall u c \<in> set (issued w (handleUpload io w))"
  shows "\<exists>sr j. start_result (start_reply io) = Inr sr \<and> j < length (chunks_of f)
     \<and> j < length (parts sr) \<and> u = url (parts sr ! j) \<and> c = chunks_of f ! j"
  using assms(1)
proof (cases rule: handleUpload_issued [where io = io])
  case (no_session e)
  then show ?thesis using assms(2) by simp
next
  case (uploading sr r4 w4 les)
  then show ?thesis using assms(2) by (auto simp: loop_event_def)
next
  case (completing sr cps' w4 les tes)
  have "PutCall u c \<notin> set tes"
    using completing(6) by (auto simp: tail_event_def)
  then have "PutCall u c \<in> set les"
    using assms(2) completing(5,7) by auto
  then show ?thesis using completing(1,4) by (auto simp: loop_event_def)
qed

lemma map_insort_key: "map f (insort_key f x xs) = insort (f x) (map f xs)"
  by (induction xs) simp_all

lemma map_sort_key: "map f (sort_key f xs) = sort (map f xs)"
  by (induction xs) (simp_all add: map_insort_key)

lemma records_part_numbers:
  assumes "records io ps 0 recorded"
  shows "map PartNumber recorded = map part_number (take (length recorded) ps)"
proof (rule nth_equalityI)
  have "length recorded \<le> length ps"
  proof (cases recorded rule: rev_cases)
    case Nil
    then show ?thesis by simp
  next
    case (snoc ys y)
    then have "0 + length ys < length ps" using assms by (simp add: records_def)
    with snoc show ?thesis by simp
  qed
  then show "length (map PartNumber recorded) = length (map part_number (take (length recorded) ps))"
    by simp
  show "map PartNumber recorded ! k = map part_number (take (length recorded) ps) ! k"
    if "k < length (map PartNumber recorded)" for k
    using that assms by (simp add: records_def)
qed

lemma sorted_range_unique:
  fixes xs :: "int list"
  assumes "sorted xs" "set xs = {1..int n}" "length xs = n"
  shows "xs = [1..int n]"
proof -
  have "card (set xs) = length xs" using assms(2,3) by simp
  then have "distinct xs" by (rule card_distinct)
  then show ?thesis
    using assms(1,2) by (intro sorted_distinct_set_unique) simp_all
qed

section \<open>Runs on concrete inputs\<close>

lemma chunks_of_large_file:
  "chunks_of large_file = [replicate 5242880 (CHR ''a''), replicate 1 (CHR ''a'')]"
  by (simp add: chunks_of_def large_file_def chunk_count_def chunk_at_def slice_def CHUNK_SIZE_def
      upt_rec)

lemma smooth_attempt:
  "put_attempt p (put_reply (put_io (io_smooth ps) i r)) = Inr ''t1''"
  by (simp add: io_smooth_def put_attempt_def put_ok_def extract_etag_def js_or_def strip_quotes_def
      trim_def is_quote_def is_space_def)

lemma run_smooth_large:
  "handleUpload (io_smooth [part_at m ''https://store/a'', part_at n ''https://store/b''])
      (selected large_file)
     = (selected large_file)\<lparr>uploading := False, progress := 100,
          status := ''Upload completed successfully!'', videoUid := Some ''v1'',
          trace := [StartCall ''upload-1'' ''film.mp4'' 2 (Some ''video/mp4''),
                    PutCall ''https://store/a'' (replicate 5242880 (CHR ''a'')),
                    PutCall ''https://store/b'' (replicate 1 (CHR ''a'')),
                    CompleteCall ''v1'' (sort_key PartNumber
                      [\<lparr>ETag = ''t1'', PartNumber = m\<rparr>, \<lparr>ETag = ''t1'', PartNumber = n\<rparr>]),
                    SetTimeout 3000, StatusCall ''v1'']\<rparr>"
proof -
  let ?io = "io_smooth [part_at m ''https://store/a'', part_at n ''https://store/b'']"
  have f: "file' (selected large_file) = Some large_file" by (simp add: selected_def)
  have sr: "start_result (start_reply ?io)
      = Inr \<lparr>parts = [part_at m ''https://store/a'', part_at n ''https://store/b''], video = ''v1''\<rparr>"
    by (simp add: io_smooth_def start_ok_def start_result_def)
  have cr: "complete_result (complete_reply ?io) = Inr ()"
    by (simp add: io_smooth_def plain_ok_def complete_result_def)
  have st: "status_result (status_reply ''completed'')
      = Inr \<lparr>us_status = ''completed'', us_video = ''v1''\<rparr>"
    by (simp add: status_result_def status_reply_def)
  show ?thesis
    apply (simp add: handleUpload_eq [OF f] handleUpload_try_eq sr loop_run_def chunks_of_large_file
        del: sort_key_simps)
    apply (simp add: upload_loop.simps nth_opt_def uploadChunkToS3.simps smooth_attempt Let_def
        del: sort_key_simps)
    apply (simp add: cr poll_run_def pollStatus_def page_completing_def del: sort_key_simps)
    apply (simp add: poll.simps checkStatus_def st Let_def io_smooth_def round_of_def press_cases
        del: sort_key_simps)
    apply (simp add: page_ready_def page_started_def page_reset_def part_at_def
        selected_def idle_page_def large_file_def chunks_of_large_file [unfolded large_file_def]
        del: sort_key_simps)
    done
qed


lemma selected_fields [simp]:
  "trace (selected f) = []" "\<not> cancelledRef (selected f)" "file' (selected f) = Some f"
  by (simp_all add: selected_def idle_page_def)

lemma issued_smooth_large:
  "issued (selected large_file)
     (handleUpload (io_smooth [part_at m ''https://store/a'', part_at n ''https://store/b''])
        (selected large_file))
     = [StartCall ''upload-1'' ''film.mp4'' 2 (Some ''video/mp4''),
        PutCall ''https://store/a'' (replicate 5242880 (CHR ''a'')),
        PutCall ''https://store/b'' (replicate 1 (CHR ''a'')),
        CompleteCall ''v1'' (sort_key PartNumber
          [\<lparr>ETag = ''t1'', PartNumber = m\<rparr>, \<lparr>ETag = ''t1'', PartNumber = n\<rparr>]),
        SetTimeout 3000, StatusCall ''v1'']"
  by (simp add: run_smooth_large issued_def del: sort_key_simps)

section \<open>The part list of the complete request\<close>

text \<open>
  C1 (as amended). When a run sends the complete request, the start request had
  succeeded, the request names the video of the start response, and its part list has
  one entry per chunk of the chunker and is sorted ascending by part number: the part
  numbers are those of the first \<open>totalParts\<close> parts of the start response, sorted. When
  those are the numbers \<open>1..totalParts\<close> in any order, the list is strictly ascending,
  without duplicates and without gaps.
\<close>

theorem complete_call_part_list:
  assumes "file' w = Some f" and "CompleteCall uid cps \<in> set (issued w (handleUpload io w))"
  shows "\<exists>sr. start_result (start_reply io) = Inr sr \<and> uid = video sr
     \<and> chunkFile f = Some (chunks_of f)
     \<and> length cps = length (chunks_of f)
     \<and> length (chunks_of f) \<le> length (parts sr)
     \<and> sorted (map PartNumber cps)
     \<and> map PartNumber cps = sort (map part_number (take (length (chunks_of f)) (parts sr)))
     \<and> (set (map part_number (take (length (chunks_of f)) (parts sr))) = {1..int (length (chunks_of f))}
        \<longrightarrow> map PartNumber cps = [1..int (length (chunks_of f))]
            \<and> sorted_wrt (<) (map PartNumber cps) \<and> distinct (map PartNumber cps))"
proof -
  obtain sr recorded where r: "start_result (start_reply io) = Inr sr" "uid = video sr"
    "cps = sort_key PartNumber recorded" "length recorded = length (chunks_of f)"
    "records (put_io io) (parts sr) 0 recorded"
    using complete_call_recorded [OF assms] by blast
  let ?n = "length (chunks_of f)"
  have pn: "map PartNumber recorded = map part_number (take ?n (parts sr))"
    using records_part_numbers [OF r(5)] r(4) by simp
  have le: "?n \<le> length (parts sr)"
    using arg_cong [OF pn, of length] r(4) by simp
  have m: "map PartNumber cps = sort (map part_number (take ?n (parts sr)))"
    by (simp add: r(3) map_sort_key pn)
  have s: "sorted (map PartNumber cps)" by (simp add: m)
  have len: "length cps = ?n" by (simp add: r(3,4))
  have u: "map PartNumber cps = [1..int ?n] \<and> sorted_wrt (<) (map PartNumber cps)
      \<and> distinct (map PartNumber cps)"
    if "set (map part_number (take ?n (parts sr))) = {1..int ?n}"
  proof -
    have "set (map PartNumber cps) = {1..int ?n}" using that by (simp add: m)
    then have "map PartNumber cps = [1..int ?n]"
      using s len by (intro sorted_range_unique) simp_all
    then show ?thesis by (simp add: strict_sorted_iff)
  qed
  show ?thesis
    using r(1,2) chunkFile_chunks_of [of f] len le s m u by blast
qed

theorem complete_call_part_list_witness:
  "file' (selected large_file) = Some large_file
   \<and> CompleteCall ''v1'' [\<lparr>ETag = ''t1'', PartNumber = 1\<rparr>, \<lparr>ETag = ''t1'', PartNumber = 2\<rparr>]
       \<in> set (issued (selected large_file)
            (handleUpload (io_smooth [part_at 2 ''https://store/a'', part_at 1 ''https://store/b''])
               (selected large_file)))
   \<and> length [\<lparr>ETag = ''t1'', PartNumber = 1\<rparr>, \<lparr>ETag = ''t1'', PartNumber = 2\<rparr>]
       = length (chunks_of large_file)
   \<and> sorted (map PartNumber [\<lparr>ETag = ''t1'', PartNumber = 1\<rparr>, \<lparr>ETag = ''t1'', PartNumber = 2\<rparr>])"
proof -
  let ?io = "io_smooth [part_at 2 ''https://store/a'', part_at 1 ''https://store/b'']"
  let ?cps = "[\<lparr>ETag = ''t1'', PartNumber = 1\<rparr>, \<lparr>ETag = ''t1'', PartNumber = 2\<rparr>]"
  have f: "file' (selected large_file) = Some large_file" by (simp add: selected_def)
  have c: "CompleteCall ''v1'' ?cps \<in> set (issued (selected large_file) (handleUpload ?io (selected large_file)))"
    by (simp add: issued_smooth_large)
  have "length ?cps = length (chunks_of large_file) \<and> sorted (map PartNumber ?cps)"
    using complete_call_part_list [OF f c] by blast
  with f c show ?thesis by blast
qed

theorem complete_call_duplicates_counterexample:
  "CompleteCall ''v1'' [\<lparr>ETag = ''t1'', PartNumber = 1\<rparr>, \<lparr>ETag = ''t1'', PartNumber = 1\<rparr>]
       \<in> set (issued (selected large_file)
            (handleUpload (io_smooth [part_at 1 ''https://store/a'', part_at 1 ''https://store/b''])
               (selected large_file)))
   \<and> status (handleUpload (io_smooth [part_at 1 ''https://store/a'', part_at 1 ''https://store/b''])
               (selected large_file)) = ''Upload completed successfully!''
   \<and> \<not> cancelledRef (handleUpload (io_smooth [part_at 1 ''https://store/a'', part_at 1 ''https://store/b''])
               (selected large_file))
   \<and> \<not> distinct (map PartNumber [\<lparr>ETag = ''t1'', PartNumber = 1\<rparr>, \<lparr>ETag = ''t1'', PartNumber = 1\<rparr>])
   \<and> \<not> sorted_wrt (<) (map PartNumber [\<lparr>ETag = ''t1'', PartNumber = 1\<rparr>, \<lparr>ETag = ''t1'', PartNumber = 1\<rparr>])"
proof -
  let ?io = "io_smooth [part_at 1 ''https://store/a'', part_at 1 ''https://store/b'']"
  have "CompleteCall ''v1'' [\<lparr>ETag = ''t1'', PartNumber = 1\<rparr>, \<lparr>ETag = ''t1'', PartNumber = 1\<rparr>]
       \<in> set (issued (selected large_file) (handleUpload ?io (selected large_file)))"
    by (simp add: issued_smooth_large)
  moreover have "status (handleUpload ?io (selected large_file)) = ''Upload completed successfully!''"
    and "\<not> cancelledRef (handleUpload ?io (selected large_file))"
    by (simp_all add: run_smooth_large)
  ultimately show ?thesis by simp
qed

section \<open>Chunks and destinations\<close>

text \<open>
  C9. Every \<^verbatim>\<open>PUT\<close> of a run sends chunk \<open>j\<close> to the URL of the \<open>j\<close>-th part of the start
  response, for some \<open>j\<close>. When the run reaches the complete request, every chunk \<open>j\<close> was
  sent so, its token was recorded under the part number of that \<open>j\<close>-th part, and the
  request carries these records sorted; so when the first \<open>totalParts\<close> part numbers are
  not \<open>1, 2, ...\<close> in this order, some chunk \<open>j\<close> went to a part whose number is not
  \<open>j + 1\<close>.
\<close>

theorem positional_pairing:
  assumes "file' w = Some f"
  shows "(\<forall>u c. PutCall u c \<in> set (issued w (handleUpload io w))
          \<longrightarrow> (\<exists>sr j. start_result (start_reply io) = Inr sr \<and> j < length (chunks_of f)
                 \<and> j < length (parts sr) \<and> u = url (parts sr ! j) \<and> c = chunks_of f ! j))
    \<and> (\<forall>uid cps. CompleteCall uid cps \<in> set (issued w (handleUpload io w))
          \<longrightarrow> (\<exists>sr recorded. start_result (start_reply io) = Inr sr
                 \<and> cps = sort_key PartNumber recorded
                 \<and> length recorded = length (chunks_of f)
                 \<and> (\<forall>j<length (chunks_of f). j < length (parts sr)
                       \<and> PutCall (url (parts sr ! j)) (chunks_of f ! j)
                           \<in> set (issued w (handleUpload io w))
                       \<and> PartNumber (recorded ! j) = part_number (parts sr ! j)
                       \<and> upload_outcome (parts sr ! j) (put_io io j) = Inr (ETag (recorded ! j)))
                 \<and> (map part_number (take (length (chunks_of f)) (parts sr))
                       \<noteq> map int [1..<Suc (length (chunks_of f))]
                     \<longrightarrow> (\<exists>j<length (chunks_of f).
                            PutCall (url (parts sr ! j)) (chunks_of f ! j)
                              \<in> set (issued w (handleUpload io w))
                            \<and> part_number (parts sr ! j) \<noteq> int j + 1))))"
proof (intro conjI allI impI)
  fix u c
  assume "PutCall u c \<in> set (issued w (handleUpload io w))"
  with assms show "\<exists>sr j. start_result (start_reply io) = Inr sr \<and> j < length (chunks_of f)
                 \<and> j < length (parts sr) \<and> u = url (parts sr ! j) \<and> c = chunks_of f ! j"
    by (rule put_positional)
next
  fix uid cps
  assume c: "CompleteCall uid cps \<in> set (issued w (handleUpload io w))"
  let ?n = "length (chunks_of f)"
  obtain sr recorded where r: "start_result (start_reply io) = Inr sr"
    "cps = sort_key PartNumber recorded" "length recorded = ?n"
    "records (put_io io) (parts sr) 0 recorded"
    "\<forall>j<?n. PutCall (url (parts sr ! j)) (chunks_of f ! j) \<in> set (issued w (handleUpload io w))"
    using complete_call_recorded [OF assms c] by blast
  have each: "\<forall>j<?n. j < length (parts sr)
      \<and> PutCall (url (parts sr ! j)) (chunks_of f ! j) \<in> set (issued w (handleUpload io w))
      \<and> PartNumber (recorded ! j) = part_number (parts sr ! j)
      \<and> upload_outcome (parts sr ! j) (put_io io j) = Inr (ETag (recorded ! j))"
    using r(3,4,5) by (simp add: records_def)
  have mis: "\<exists>j<?n. PutCall (url (parts sr ! j)) (chunks_of f ! j) \<in> set (issued w (handleUpload io w))
      \<and> part_number (parts sr ! j) \<noteq> int j + 1"
    if ne: "map part_number (take ?n (parts sr)) \<noteq> map int [1..<Suc ?n]"
  proof (rule ccontr)
    assume "\<not> ?thesis"
    then have all: "\<forall>j<?n. part_number (parts sr ! j) = int j + 1" using r(5) by blast
    have le: "?n \<le> length (parts sr)"
    proof (cases ?n)
      case 0
      then show ?thesis by simp
    next
      case (Suc k)
      then have "k < length (parts sr)" using each by simp
      with Suc show ?thesis by simp
    qed
    have "map part_number (take ?n (parts sr)) = map int [1..<Suc ?n]"
    proof (rule nth_equalityI)
      show "length (map part_number (take ?n (parts sr))) = length (map int [1..<Suc ?n])"
        using le by (simp del: upt_Suc)
      show "map part_number (take ?n (parts sr)) ! k = map int [1..<Suc ?n] ! k"
        if "k < length (map part_number (take ?n (parts sr)))" for k
        using that all by (simp add: nth_upt del: upt_Suc)
    qed
    with ne show False by simp
  qed
  show "\<exists>sr recorded. start_result (start_reply io) = Inr sr
                 \<and> cps = sort_key PartNumber recorded
                 \<and> length recorded = length (chunks_of f)
                 \<and> (\<forall>j<length (chunks_of f). j < length (parts sr)
                       \<and> PutCall (url (parts sr ! j)) (chunks_of f ! j)
                           \<in> set (issued w (handleUpload io w))
                       \<and> PartNumber (recorded ! j) = part_number (parts sr ! j)
                       \<and> upload_outcome (parts sr ! j) (put_io io j) = Inr (ETag (recorded ! j)))
                 \<and> (map part_number (take (length (chunks_of f)) (parts sr))
                       \<noteq> map int [1..<Suc (length (chunks_of f))]
                     \<longrightarrow> (\<exists>j<length (chunks_of f).
                            PutCall (url (parts sr ! j)) (chunks_of f ! j)
                              \<in> set (issued w (handleUpload io w))
                            \<and> part_number (parts sr ! j) \<noteq> int j + 1))"
    using r(1,2,3) each mis by blast
qed


theorem positional_pairing_witness:
  "file' (selected large_file) = Some large_file
   \<and> PutCall ''https://store/a'' (replicate 5242880 (CHR ''a''))
       \<in> set (issued (selected large_file)
            (handleUpload (io_smooth [part_at 2 ''https://store/a'', part_at 1 ''https://store/b''])
               (selected large_file)))
   \<and> CompleteCall ''v1'' [\<lparr>ETag = ''t1'', PartNumber = 1\<rparr>, \<lparr>ETag = ''t1'', PartNumber = 2\<rparr>]
       \<in> set (issued (selected large_file)
            (handleUpload (io_smooth [part_at 2 ''https://store/a'', part_at 1 ''https://store/b''])
               (selected large_file)))
   \<and> map part_number (take (length (chunks_of large_file))
         [part_at 2 ''https://store/a'', part_at 1 ''https://store/b''])
       \<noteq> map int [1..<Suc (length (chunks_of large_file))]
   \<and> (\<exists>j<length (chunks_of large_file).
         PutCall (url ([part_at 2 ''https://store/a'', part_at 1 ''https://store/b''] ! j))
             (chunks_of large_file ! j)
           \<in> set (issued (selected large_file)
                (handleUpload (io_smooth [part_at 2 ''https://store/a'', part_at 1 ''https://store/b''])
                   (selected large_file)))
         \<and> part_number ([part_at 2 ''https://store/a'', part_at 1 ''https://store/b''] ! j) \<noteq> int j + 1)"
proof -
  let ?ps = "[part_at 2 ''https://store/a'', part_at 1 ''https://store/b'']"
  let ?io = "io_smooth ?ps"
  let ?w = "selected large_file"
  let ?cps = "[\<lparr>ETag = ''t1'', PartNumber = 1\<rparr>, \<lparr>ETag = ''t1'', PartNumber = 2\<rparr>]"
  have f: "file' ?w = Some large_file" by simp
  have p: "PutCall ''https://store/a'' (replicate 5242880 (CHR ''a''))
      \<in> set (issued ?w (handleUpload ?io ?w))"
    by (simp add: issued_smooth_large)
  have c: "CompleteCall ''v1'' ?cps \<in> set (issued ?w (handleUpload ?io ?w))"
    by (simp add: issued_smooth_large)
  have s: "start_result (start_reply ?io) = Inr \<lparr>parts = ?ps, video = ''v1''\<rparr>"
    by (simp add: io_smooth_def start_ok_def start_result_def)
  have ne: "map part_number (take (length (chunks_of large_file)) ?ps)
      \<noteq> map int [1..<Suc (length (chunks_of large_file))]"
    by (simp add: chunks_of_large_file part_at_def)
  obtain sr where sr: "start_result (start_reply ?io) = Inr sr"
    and m: "map part_number (take (length (chunks_of large_file)) (parts sr))
              \<noteq> map int [1..<Suc (length (chunks_of large_file))]
            \<longrightarrow> (\<exists>j<length (chunks_of large_file).
                  PutCall (url (parts sr ! j)) (chunks_of large_file ! j)
                    \<in> set (issued ?w (handleUpload ?io ?w))
                  \<and> part_number (parts sr ! j) \<noteq> int j + 1)"
    using positional_pairing [OF f, of ?io] c by blast
  have "parts sr = ?ps" using s sr by simp
  with m ne have "\<exists>j<length (chunks_of large_file).
      PutCall (url (?ps ! j)) (chunks_of large_file ! j) \<in> set (issued ?w (handleUpload ?io ?w))
      \<and> part_number (?ps ! j) \<noteq> int j + 1"
    by simp
  with f p c ne show ?thesis by blast
qed

section \<open>Cancel while a chunk is in flight\<close>

lemma quiet_iff:
  "quiet part io \<longleftrightarrow> (\<forall>j. 0 \<le> j \<and> j \<le> final_attempt part io 0 \<longrightarrow> click_put (io j) = None)"
  by (auto simp: quiet_def list_all_iff less_Suc_eq_le)

lemma uploaded_quiet:
  assumes "quiet (ps ! i) (io i)"
  shows "uploaded io chunks ps n i w
    = (announced i n w)\<lparr>trace := trace w @ attempts_of io chunks ps i\<rparr>"
  using uploadChunkToS3_quiet [of 0 "ps ! i" "io i" "chunks ! i" "announced i n w"] assms
  by (simp add: uploaded_def quiet_iff attempts_of_def announced_def)

lemma uploaded_puts:
  "filter is_put (trace (uploaded io chunks ps n i w))
     = filter is_put (trace w) @ attempts_of io chunks ps i"
  unfolding uploaded_def uploadChunkToS3_puts by (simp add: announced_def attempts_of_def)

lemma uploaded_signalled:
  assumes "armed uid w" "\<not> quiet (ps ! i) (io i)"
  shows "signalled uid (uploaded io chunks ps n i w)"
proof -
  obtain j where j: "j \<le> final_attempt (ps ! i) (io i) 0" "click_put (io i j) \<noteq> None"
    using assms(2) by (auto simp: quiet_iff)
  have "armed uid (announced i n w)" using assms(1) by (simp add: armed_def announced_def)
  then show ?thesis
    unfolding uploaded_def using j by (intro uploadChunkToS3_signalled [where j = j]) simp_all
qed

lemma signalled_status: "signalled uid w \<Longrightarrow> signalled uid (w\<lparr>status := s\<rparr>)"
  and signalled_progress: "signalled uid w \<Longrightarrow> signalled uid (w\<lparr>progress := x\<rparr>)"
  by (simp_all add: signalled_def)

lemma upload_loop_after_cancel:
  assumes "cancelledRef w"
  shows "\<exists>s. upload_loop io chunks ps n i acc w = (Inr acc, w\<lparr>status := s\<rparr>)"
proof (cases "i < length chunks")
  case True
  then show ?thesis using assms upload_loop_break by blast
next
  case False
  then have "upload_loop io chunks ps n i acc w = (Inr acc, w\<lparr>status := status w\<rparr>)"
    by (simp add: upload_loop_done)
  then show ?thesis by blast
qed

lemma upload_loop_cancel_at:
  assumes "k < length chunks" "k < length ps" "\<not> quiet (ps ! k) (io k)"
  shows "i \<le> k \<Longrightarrow> armed uid w \<Longrightarrow> \<not> cancelledRef w
    \<Longrightarrow> \<forall>j. i \<le> j \<and> j < k \<longrightarrow> j < length ps \<and> \<not> isl (upload_outcome (ps ! j) (io j)) \<and> quiet (ps ! j) (io j)
    \<Longrightarrow> upload_loop io chunks ps n i acc w = (r, w')
    \<Longrightarrow> signalled uid w'
      \<and> filter is_put (trace w') = filter is_put (trace w) @ concat (map (attempts_of io chunks ps) [i..<Suc k])
      \<and> (\<forall>e. upload_outcome (ps ! k) (io k) = Inl e \<longrightarrow> r = Inl e)
      \<and> (\<forall>etag. upload_outcome (ps ! k) (io k) = Inr etag
            \<longrightarrow> (\<exists>new. r = Inr (acc @ new) \<and> length new = Suc k - i \<and> records io ps i new))"
proof (induction "k - i" arbitrary: i acc w)
  case 0
  then have ik: "i = k" by simp
  have lt: "i < length chunks" "i < length ps" using assms(1,2) ik by simp_all
  have sig: "signalled uid (uploaded io chunks ps n i w)"
    using "0.prems"(2) assms(3) ik by (intro uploaded_signalled) simp_all
  have puts: "filter is_put (trace (uploaded io chunks ps n i w))
      = filter is_put (trace w) @ concat (map (attempts_of io chunks ps) [i..<Suc k])"
    by (simp add: uploaded_puts ik)
  show ?case
  proof (cases "upload_outcome (ps ! i) (io i)")
    case (Inl e)
    have "upload_loop io chunks ps n i acc w = (Inl e, uploaded io chunks ps n i w)"
      using lt "0.prems"(3) Inl by (intro upload_loop_failed) simp_all
    then show ?thesis using "0.prems"(5) sig puts Inl ik by auto
  next
    case (Inr etag)
    let ?p = "\<lparr>ETag = etag, PartNumber = part_number (ps ! i)\<rparr>"
    let ?w = "(uploaded io chunks ps n i w)\<lparr>progress := 10 + (real i + 1) * (80 / real n)\<rparr>"
    have step: "upload_loop io chunks ps n i acc w = upload_loop io chunks ps n (Suc i) (acc @ [?p]) ?w"
      using lt "0.prems"(3) Inr by (intro upload_loop_next) simp_all
    have "cancelledRef ?w" using sig by (simp add: signalled_def)
    then obtain s where "upload_loop io chunks ps n (Suc i) (acc @ [?p]) ?w = (Inr (acc @ [?p]), ?w\<lparr>status := s\<rparr>)"
      using upload_loop_after_cancel by blast
    then have res: "r = Inr (acc @ [?p])" "w' = ?w\<lparr>status := s\<rparr>"
      using step "0.prems"(5) by simp_all
    have "records io ps i [?p]" using lt Inr by (simp add: records_def)
    then show ?thesis
      using res sig puts Inr ik by (auto simp: signalled_def)
  qed
next
  case (Suc d)
  then have ik: "i < k" by simp
  have lt: "i < length chunks" "i < length ps" using assms(1,2) ik by simp_all
  have q: "quiet (ps ! i) (io i)" and ok: "\<not> isl (upload_outcome (ps ! i) (io i))"
    using Suc.prems(4) ik by simp_all
  obtain etag where etag: "upload_outcome (ps ! i) (io i) = Inr etag"
    using ok by (cases "upload_outcome (ps ! i) (io i)") simp_all
  let ?p = "\<lparr>ETag = etag, PartNumber = part_number (ps ! i)\<rparr>"
  let ?w = "(uploaded io chunks ps n i w)\<lparr>progress := 10 + (real i + 1) * (80 / real n)\<rparr>"
  have step: "upload_loop io chunks ps n i acc w = upload_loop io chunks ps n (Suc i) (acc @ [?p]) ?w"
    using lt Suc.prems(3) etag by (intro upload_loop_next) simp_all
  have w: "armed uid ?w" "\<not> cancelledRef ?w"
    using Suc.prems(2,3)
    by (simp_all add: uploaded_quiet [where io = io and ps = ps and i = i, OF q] armed_def announced_def)
  have d: "d = k - Suc i" using Suc.hyps(2) by simp
  have rest: "\<forall>j. Suc i \<le> j \<and> j < k \<longrightarrow> j < length ps \<and> \<not> isl (upload_outcome (ps ! j) (io j)) \<and> quiet (ps ! j) (io j)"
    using Suc.prems(4) by simp
  have run: "upload_loop io chunks ps n (Suc i) (acc @ [?p]) ?w = (r, w')"
    using step Suc.prems(5) by simp
  have IH: "signalled uid w'
      \<and> filter is_put (trace w') = filter is_put (trace ?w) @ concat (map (attempts_of io chunks ps) [Suc i..<Suc k])
      \<and> (\<forall>e. upload_outcome (ps ! k) (io k) = Inl e \<longrightarrow> r = Inl e)
      \<and> (\<forall>etag. upload_outcome (ps ! k) (io k) = Inr etag
            \<longrightarrow> (\<exists>new. r = Inr ((acc @ [?p]) @ new) \<and> length new = Suc k - Suc i \<and> records io ps (Suc i) new))"
    using ik by (intro Suc.hyps(1) [OF d _ w rest run]) simp
  have puts: "filter is_put (trace w') = filter is_put (trace w) @ concat (map (attempts_of io chunks ps) [i..<Suc k])"
  proof -
    have "[i..<Suc k] = i # [Suc i..<Suc k]" using ik by (simp add: upt_conv_Cons del: upt_Suc)
    then show ?thesis using IH by (simp add: uploaded_puts del: upt_Suc)
  qed
  have rec: "\<exists>new. r = Inr (acc @ new) \<and> length new = Suc k - i \<and> records io ps i new"
    if t: "upload_outcome (ps ! k) (io k) = Inr t" for t
  proof -
    obtain new where new: "r = Inr ((acc @ [?p]) @ new)" "length new = Suc k - Suc i"
      "records io ps (Suc i) new"
      using IH t by blast
    have "records io ps i (?p # new)"
      using lt etag new(3) by (intro records_Cons) simp_all
    then show ?thesis using new(1,2) ik by (intro exI [of _ "?p # new"]) simp
  qed
  show ?case using IH puts rec by blast
qed


lemma handleUpload_cancelled_in_loop:
  assumes "file' w = Some f" "start_result (start_reply io) = Inr sr"
    "loop_run io f sr w = (r4, w4)" "cancelledRef w4"
  shows "handleUpload io w
    = (case r4 of Inl e \<Rightarrow> w4\<lparr>uploading := False\<rparr>
       | Inr cps \<Rightarrow> w4\<lparr>status := ''Upload cancelled'', uploading := False\<rparr>)"
  using assms(2-4)
  by (cases r4) (simp_all add: handleUpload_eq [OF assms(1)] handleUpload_try_eq caught_def)

lemma loop_run_notified:
  assumes "loop_run io f sr w = (r4, w4)" "cancelledRef w4"
  shows "CancelCall (video sr) \<in> set (issued w w4)"
proof -
  let ?P = "\<lambda>w'. videoUid w' = Some (video sr) \<and> length (trace w) \<le> length (trace w')
    \<and> (cancelledRef w' \<longrightarrow> CancelCall (video sr) \<in> set (drop (length (trace w)) (trace w')))"
  have "?P (snd (loop_run io f sr w))"
  proof (rule loop_run_invariant [where P = ?P])
    show "?P (press c w')" if "?P w'" for c w'
      using that by (auto simp: press_cases)
    show "?P (w'\<lparr>trace := trace w' @ [PutCall (url (parts sr ! j)) (chunks_of f ! j)]\<rparr>)"
      if "?P w'" for w' j
      using that by auto
    show "?P (w'\<lparr>status := s\<rparr>)" if "?P w'" for w' s
      using that by simp
    show "?P (w'\<lparr>progress := x\<rparr>)" if "?P w'" for w' x
      using that by simp
    show "?P (page_ready io f sr w)" by simp
  qed
  then show ?thesis using assms by (simp add: issued_def)
qed

lemma loop_run_issued: "trace (snd (loop_run io f sr w)) = trace w @ issued w (snd (loop_run io f sr w))"
  using loop_run_extends [of io f sr w] by (auto simp: extends_def issued_def)

text \<open>
  C4. Suppose the start request succeeded with a non-empty video id, the chunks before
  chunk \<open>k\<close> were uploaded with no Cancel press, and Cancel is pressed while an attempt
  of chunk \<open>k\<close> is in flight. Then the \<^verbatim>\<open>PUT\<close> requests of the run are exactly the
  attempts of the chunks \<open>0..k\<close>, those of chunk \<open>k\<close> being all the attempts its upload
  makes, cancelled or not; no complete request is sent; the cancel request is sent; the
  run ends with the cancelled flags set, not uploading, with no error shown and not in
  the failed state; when the upload of chunk \<open>k\<close> returns a token, the loop keeps it as
  its \<open>k\<close>-th record and the status is \<open>Upload cancelled\<close>. What the backend answers to
  the cancel request never changes the page.
\<close>

theorem cancel_during_chunk:
  assumes "file' w = Some f"
    and "start_result (start_reply io) = Inr sr"
    and "video sr \<noteq> []"
    and "k < length (chunks_of f)" and "k < length (parts sr)"
    and "\<forall>j<k. \<not> isl (upload_outcome (parts sr ! j) (put_io io j)) \<and> quiet (parts sr ! j) (put_io io j)"
    and "\<not> quiet (parts sr ! k) (put_io io k)"
  shows "filter is_put (issued w (handleUpload io w))
      = concat (map (attempts_of (put_io io) (chunks_of f) (parts sr)) [0..<Suc k])
    \<and> filter is_complete (issued w (handleUpload io w)) = []
    \<and> CancelCall (video sr) \<in> set (issued w (handleUpload io w))
    \<and> cancelledRef (handleUpload io w) \<and> cancelled (handleUpload io w)
    \<and> \<not> uploading (handleUpload io w)
    \<and> error (handleUpload io w) = [] \<and> status (handleUpload io w) \<noteq> ''Upload failed''
    \<and> (\<forall>etag. upload_outcome (parts sr ! k) (put_io io k) = Inr etag
          \<longrightarrow> status (handleUpload io w) = ''Upload cancelled''
              \<and> (\<exists>recorded w4. loop_run io f sr w = (Inr recorded, w4) \<and> length recorded = Suc k
                    \<and> records (put_io io) (parts sr) 0 recorded \<and> ETag (recorded ! k) = etag))
    \<and> (\<forall>reply reply' p u. handleCancel reply p = handleCancel reply' p
          \<and> error (handleCancel reply p) = error p \<and> fst (cancelUpload reply u p) = Inr ())"
proof -
  let ?ps = "parts sr" and ?chunks = "chunks_of f"
  obtain r4 w4 where L: "loop_run io f sr w = (r4, w4)" by fastforce
  have armed: "armed (video sr) (page_ready io f sr w)"
    using assms(3) by (simp add: armed_def)
  have before: "\<forall>j. 0 \<le> j \<and> j < k \<longrightarrow> j < length ?ps
      \<and> \<not> isl (upload_outcome (?ps ! j) (put_io io j)) \<and> quiet (?ps ! j) (put_io io j)"
    using assms(5,6) by simp
  have loop: "signalled (video sr) w4
      \<and> filter is_put (trace w4) = filter is_put (trace (page_ready io f sr w))
          @ concat (map (attempts_of (put_io io) ?chunks ?ps) [0..<Suc k])
      \<and> (\<forall>e. upload_outcome (?ps ! k) (put_io io k) = Inl e \<longrightarrow> r4 = Inl e)
      \<and> (\<forall>etag. upload_outcome (?ps ! k) (put_io io k) = Inr etag
            \<longrightarrow> (\<exists>new. r4 = Inr ([] @ new) \<and> length new = Suc k - 0 \<and> records (put_io io) ?ps 0 new))"
    using upload_loop_cancel_at [where io = "put_io io" and i = 0, OF assms(4,5,7) _ armed _ before
        L [unfolded loop_run_def]]
    by simp
  then have c4: "cancelledRef w4" by (simp add: signalled_def)
  have run: "running (video sr) w4" using running_loop [of sr io f w] L by simp
  have final: "handleUpload io w
    = (case r4 of Inl e \<Rightarrow> w4\<lparr>uploading := False\<rparr>
       | Inr cps \<Rightarrow> w4\<lparr>status := ''Upload cancelled'', uploading := False\<rparr>)"
    using assms(1,2) L c4 by (rule handleUpload_cancelled_in_loop)
  then have tr: "trace (handleUpload io w) = trace w4" by (cases r4) simp_all
  have pre: "trace w4 = trace w @ issued w w4" using loop_run_issued [of io f sr w] L by simp
  then have iss: "issued w (handleUpload io w) = issued w w4" by (simp add: issued_def tr)
  have "filter is_put (trace w) @ filter is_put (issued w w4)
      = filter is_put (trace w) @ concat (map (attempts_of (put_io io) ?chunks ?ps) [0..<Suc k])"
  proof -
    have "filter is_put (trace w4) = filter is_put (trace w) @ filter is_put (issued w w4)"
      by (subst pre) simp
    moreover have "filter is_put (trace (page_ready io f sr w)) = filter is_put (trace w)"
      by simp
    ultimately show ?thesis using loop by simp
  qed
  then have a: "filter is_put (issued w (handleUpload io w))
      = concat (map (attempts_of (put_io io) ?chunks ?ps) [0..<Suc k])"
    by (simp add: iss)
  have "\<forall>e\<in>set (issued w w4). \<not> is_complete e"
  proof -
    obtain es where es: "trace w4 = trace (page_ready io f sr w) @ es"
      "\<forall>e\<in>set es. loop_event ?chunks ?ps e"
      using loop_run_extends [of io f sr w] L by (auto simp: extends_def)
    have "\<not> is_complete e" if "loop_event ?chunks ?ps e" for e
      using that by (cases e) (auto simp: loop_event_def)
    then show ?thesis using es by (auto simp: issued_def)
  qed
  then have b: "filter is_complete (issued w (handleUpload io w)) = []"
    by (simp add: iss filter_empty_conv)
  have c: "CancelCall (video sr) \<in> set (issued w (handleUpload io w))"
    using loop_run_notified [OF L c4] by (simp add: iss)
  have d: "cancelledRef (handleUpload io w) \<and> cancelled (handleUpload io w)
      \<and> \<not> uploading (handleUpload io w)
      \<and> error (handleUpload io w) = [] \<and> status (handleUpload io w) \<noteq> ''Upload failed''"
    using run c4 by (cases r4) (simp_all add: final running_def)
  have e: "status (handleUpload io w) = ''Upload cancelled''
      \<and> (\<exists>recorded w4. loop_run io f sr w = (Inr recorded, w4) \<and> length recorded = Suc k
            \<and> records (put_io io) ?ps 0 recorded \<and> ETag (recorded ! k) = etag)"
    if t: "upload_outcome (?ps ! k) (put_io io k) = Inr etag" for etag
  proof -
    obtain new where new: "r4 = Inr new" "length new = Suc k" "records (put_io io) ?ps 0 new"
      using loop t by auto
    have "Inr (ETag (new ! k)) = upload_outcome (?ps ! k) (put_io io k)"
      using new(2,3) by (simp add: records_def)
    then have "ETag (new ! k) = etag" using t by simp
    then show ?thesis using new L by (simp add: final)
  qed
  have g: "handleCancel reply p = handleCancel reply' p \<and> error (handleCancel reply p) = error p
      \<and> fst (cancelUpload reply u p) = Inr ()" for reply reply' p u
    by (simp add: handleCancel_cases cancelUpload_def Let_def split: sum.splits)
  show ?thesis using a b c d e g by blast
qed


lemma chunks_of_huge_file:
  "chunks_of huge_file
     = [replicate 5242880 (CHR ''a''), replicate 5242880 (CHR ''a''), replicate 1 (CHR ''a'')]"
  by (simp add: chunks_of_def huge_file_def chunk_count_def chunk_at_def slice_def CHUNK_SIZE_def
      upt_rec)

theorem cancel_during_chunk_witness:
  "file' (selected huge_file) = Some huge_file
   \<and> start_result (start_reply io_cancel_second) = Inr \<lparr>parts = three_parts, video = ''v1''\<rparr>
   \<and> 1 < length (chunks_of huge_file) \<and> 1 < length three_parts
   \<and> upload_outcome (three_parts ! 0) (put_io io_cancel_second 0) = Inr ''t1''
   \<and> quiet (three_parts ! 0) (put_io io_cancel_second 0)
   \<and> \<not> quiet (three_parts ! 1) (put_io io_cancel_second 1)
   \<and> upload_outcome (three_parts ! 1) (put_io io_cancel_second 1) = Inr ''t1''
   \<and> filter is_put (issued (selected huge_file) (handleUpload io_cancel_second (selected huge_file)))
       = [PutCall ''https://store/1'' (replicate 5242880 (CHR ''a'')),
          PutCall ''https://store/2'' (replicate 5242880 (CHR ''a'')),
          PutCall ''https://store/2'' (replicate 5242880 (CHR ''a''))]
   \<and> filter is_complete (issued (selected huge_file) (handleUpload io_cancel_second (selected huge_file))) = []
   \<and> CancelCall ''v1'' \<in> set (issued (selected huge_file) (handleUpload io_cancel_second (selected huge_file)))
   \<and> cancelledRef (handleUpload io_cancel_second (selected huge_file))
   \<and> cancelled (handleUpload io_cancel_second (selected huge_file))
   \<and> error (handleUpload io_cancel_second (selected huge_file)) = []
   \<and> status (handleUpload io_cancel_second (selected huge_file)) = ''Upload cancelled''"
proof -
  let ?io = io_cancel_second and ?w = "selected huge_file"
  let ?sr = "\<lparr>parts = three_parts, video = ''v1''\<rparr>"
  have f: "file' ?w = Some huge_file" by simp
  have s: "start_result (start_reply ?io) = Inr ?sr"
    by (simp add: io_cancel_second_def start_ok_def start_result_def)
  have v: "video ?sr \<noteq> []" by simp
  have k1: "1 < length (chunks_of huge_file)" by (simp add: chunks_of_huge_file)
  have k2: "1 < length (parts ?sr)" by (simp add: three_parts_def)
  have ok: "put_attempt p (Inr (put_ok ''t1'')) = Inr ''t1''" for p
    by (simp add: put_attempt_def put_ok_def extract_etag_def js_or_def strip_quotes_def
        trim_def is_quote_def is_space_def)
  have bad: "isl (put_attempt p (Inr put_503))" for p
    by (simp add: put_attempt_def put_503_def)
  have fa0: "final_attempt (three_parts ! 0) (put_io ?io 0) 0 = 0"
    by (simp add: final_attempt.simps io_cancel_second_def ok)
  have fa1: "final_attempt (three_parts ! 1) (put_io ?io 1) 0 = 1"
    by (simp add: final_attempt.simps io_cancel_second_def ok bad MAX_RETRIES_def)
  have o0: "upload_outcome (three_parts ! 0) (put_io ?io 0) = Inr ''t1''"
    unfolding upload_outcome_def fa0 by (simp add: io_cancel_second_def ok)
  have o1: "upload_outcome (three_parts ! 1) (put_io ?io 1) = Inr ''t1''"
    unfolding upload_outcome_def fa1 by (simp add: io_cancel_second_def ok)
  have q0: "quiet (three_parts ! 0) (put_io ?io 0)"
    unfolding quiet_def fa0 by (simp add: io_cancel_second_def)
  have q1: "\<not> quiet (three_parts ! 1) (put_io ?io 1)"
    unfolding quiet_def fa1 by (simp add: io_cancel_second_def)
  have before: "\<forall>j<1. \<not> isl (upload_outcome (parts ?sr ! j) (put_io ?io j))
      \<and> quiet (parts ?sr ! j) (put_io ?io j)"
    using o0 q0 by simp
  have q1': "\<not> quiet (parts ?sr ! 1) (put_io ?io 1)" using q1 by simp
  note T = cancel_during_chunk [OF f s v k1 k2 before q1']
  have a0: "attempts_of (put_io ?io) (chunks_of huge_file) three_parts 0
      = [PutCall ''https://store/1'' (replicate 5242880 (CHR ''a''))]"
    unfolding attempts_of_def fa0
    by (simp add: chunks_of_huge_file three_parts_def part_at_def)
  have a1: "attempts_of (put_io ?io) (chunks_of huge_file) three_parts (Suc 0)
      = [PutCall ''https://store/2'' (replicate 5242880 (CHR ''a'')),
         PutCall ''https://store/2'' (replicate 5242880 (CHR ''a''))]"
    unfolding attempts_of_def fa1 [unfolded One_nat_def]
    by (simp add: chunks_of_huge_file three_parts_def part_at_def)
  have at: "concat (map (attempts_of (put_io ?io) (chunks_of huge_file) (parts ?sr)) [0..<Suc 1])
      = [PutCall ''https://store/1'' (replicate 5242880 (CHR ''a'')),
         PutCall ''https://store/2'' (replicate 5242880 (CHR ''a'')),
         PutCall ''https://store/2'' (replicate 5242880 (CHR ''a''))]"
    by (simp add: a0 a1)
  have o1': "upload_outcome (parts ?sr ! 1) (put_io ?io 1) = Inr ''t1''" using o1 by simp
  have st: "status (handleUpload ?io ?w) = ''Upload cancelled''" using T o1' by blast
  show ?thesis
    using f s k1 k2 o0 q0 q1 o1 T at st by (simp add: three_parts_def)
qed

end
